theory Spec2Isabelle
  imports Complex_Main
begin

section \<open>The token-bucket rate limiter of fastapi-rate-limiting.py\<close>

text \<open>
  The development embeds \<^verbatim>\<open>RateLimiter.check_rate_limit\<close>,
  \<^verbatim>\<open>RateLimiter.get_client_ip\<close> and \<^verbatim>\<open>RateLimiter.get_rate_limit_key\<close>
  of \<^verbatim>\<open>rate-limiting-universal/templates/backend/fastapi-rate-limiting.py\<close>.
  Python ints are \<^typ>\<open>int\<close>. A Python float is the real number it stands for, and
  every float operation of the source (the subtraction, division, multiplication and
  additions of lines 155-160 and 176) returns the exact result rounded to the nearest
  IEEE 754 double, ties to even (\<open>fl\<close> below). The development covers the finite
  doubles: the values \<^verbatim>\<open>inf\<close> and \<^verbatim>\<open>nan\<close> are not part of it, and neither is a
  result that leaves the range of the doubles (\<open>finite_float\<close> below says that a result
  stays inside). The wall clock \<^verbatim>\<open>time.time()\<close> read in line 140 is the parameter
  \<open>now\<close>.
\<close>

subsection \<open>Exceptions and stored values\<close>

text \<open>
  The exceptions the embedded code can raise. \<open>RedisConnectionError\<close> is the class
  imported in line 36 and caught in line 187; \<open>RedisTimeoutError\<close> is the client
  library's error for a socket timeout, a class of its own beside the connection error.
\<close>

datatype exn =
    RedisConnectionError
  | RedisTimeoutError
  | AttributeError
  | ValueError
  | KeyError
  | ZeroDivisionError

text \<open>
  A field of a Redis hash holds a string. The development keeps of a stored string what
  \<^verbatim>\<open>float()\<close> makes of it: \<open>Num x\<close> is a string that parses to the finite number
  \<open>x\<close> (the double that \<^verbatim>\<open>float()\<close> returns), \<open>Garbled s\<close> is a string \<open>s\<close> that
  \<^verbatim>\<open>float()\<close> rejects with ValueError. \<^verbatim>\<open>str(x)\<close> of a float or an int is a string
  that parses back to \<open>x\<close>. Strings that \<^verbatim>\<open>float()\<close> reads as \<^verbatim>\<open>inf\<close> or
  \<^verbatim>\<open>nan\<close> have no counterpart here.
\<close>

datatype hval = Num real | Garbled string

fun py_float :: "hval \<Rightarrow> exn + real" where
  "py_float (Num x) = Inr x"
| "py_float (Garbled s) = Inl ValueError"

definition py_str :: "real \<Rightarrow> hval" where
  "py_str x = Num x"

text \<open>\<^verbatim>\<open>int(x)\<close> of a float truncates towards zero.\<close>

definition py_int :: "real \<Rightarrow> int" where
  "py_int x = (if 0 \<le> x then \<lfloor>x\<rfloor> else \<lceil>x\<rceil>)"

subsection \<open>Rounding to a double\<close>

text \<open>
  IEEE 754 binary64, round to nearest, ties to even. A double is a multiple of
  \<open>2 powi (e - 52)\<close> where \<open>e\<close> is the exponent of its binade, not below -1022 (the
  binade of the subnormal numbers); \<open>rne\<close> rounds a non-negative quotient to the nearest
  integer and takes the even one of two equally near.
\<close>

definition rne :: "real \<Rightarrow> int" where
  "rne y =
     (let n = \<lfloor>y\<rfloor>; f = y - of_int n
      in if f < 1 / 2 then n else if 1 / 2 < f then n + 1 else if even n then n else n + 1)"

definition expo :: "real \<Rightarrow> int" where
  "expo x = max (- 1022) \<lfloor>log 2 \<bar>x\<bar>\<rfloor>"

definition fl :: "real \<Rightarrow> real" where
  "fl x =
     (if x = 0 then 0
      else sgn x * of_int (rne (\<bar>x\<bar> / 2 powi (expo x - 52))) * 2 powi (expo x - 52))"

text \<open>
  \<open>fl\<close> rounds as if the exponent had no upper bound. The finite doubles lie strictly
  between \<open>- 2 ^ 1024\<close> and \<open>2 ^ 1024\<close>; where the rounded result of an operation is
  outside, the source does not get a finite double: a float operation gives
  \<^verbatim>\<open>inf\<close>, and the true division of two ints and the conversion of an int to a float
  raise OverflowError.
\<close>

definition finite_float :: "real \<Rightarrow> bool" where
  "finite_float x \<longleftrightarrow> \<bar>x\<bar> < 2 ^ 1024"

text \<open>The finite doubles: the numbers in that range that rounding leaves as they are.\<close>

definition is_double :: "real \<Rightarrow> bool" where
  "is_double x \<longleftrightarrow> fl x = x \<and> finite_float x"

subsection \<open>The Redis store\<close>

text \<open>
  One entry per key: the fields of the hash and the time to live in seconds, if one is
  set. The three commands the limiter sends follow the Redis documentation: HGETALL of a
  missing key is the empty dict, HSET creates the hash or overwrites the given fields,
  EXPIRE of a missing key does nothing and EXPIRE with a non-positive number of seconds
  deletes the key.
\<close>

record entry =
  hfields :: "string \<rightharpoonup> hval"
  ttl :: "real option"

type_synonym redis_db = "string \<rightharpoonup> entry"

definition db_hgetall :: "redis_db \<Rightarrow> string \<Rightarrow> (string \<rightharpoonup> hval)" where
  "db_hgetall db k = (case db k of None \<Rightarrow> Map.empty | Some e \<Rightarrow> hfields e)"

definition db_hset :: "redis_db \<Rightarrow> string \<Rightarrow> hval \<Rightarrow> hval \<Rightarrow> redis_db" where
  "db_hset db k tokens_v last_refill_v =
     (case db k of
        None \<Rightarrow> db(k \<mapsto> \<lparr>hfields = [''tokens'' \<mapsto> tokens_v, ''last_refill'' \<mapsto> last_refill_v],
                         ttl = None\<rparr>)
      | Some e \<Rightarrow> db(k \<mapsto> e\<lparr>hfields := (hfields e)(''tokens'' \<mapsto> tokens_v,
                                                    ''last_refill'' \<mapsto> last_refill_v)\<rparr>))"

definition db_expire :: "redis_db \<Rightarrow> string \<Rightarrow> int \<Rightarrow> redis_db" where
  "db_expire db k seconds =
     (case db k of
        None \<Rightarrow> db
      | Some e \<Rightarrow> if seconds \<le> 0 then db(k := None)
                  else db(k \<mapsto> e\<lparr>ttl := Some (real_of_int seconds)\<rparr>))"

text \<open>
  Time passing in the store: after \<open>dt\<close> seconds every time to live has gone down by
  \<open>dt\<close>, and a key whose time to live has run out is gone.
\<close>

definition advance :: "real \<Rightarrow> redis_db \<Rightarrow> redis_db" where
  "advance dt db =
     (\<lambda>k. case db k of
        None \<Rightarrow> None
      | Some e \<Rightarrow>
          (case ttl e of
             None \<Rightarrow> Some e
           | Some t \<Rightarrow> if t - dt \<le> 0 then None else Some (e\<lparr>ttl := Some (t - dt)\<rparr>)))"

text \<open>
  Each awaited call of the client either reaches the store or raises. Which of the three
  calls of one check raise, and what, is the environment of that check; a call that
  raises leaves the store as it was.
\<close>

record faults =
  hgetall_fault :: "exn option"
  hset_fault :: "exn option"
  expire_fault :: "exn option"

definition no_faults :: faults where
  "no_faults = \<lparr>hgetall_fault = None, hset_fault = None, expire_fault = None\<rparr>"

definition hgetall :: "faults \<Rightarrow> redis_db \<Rightarrow> string \<Rightarrow> exn + (string \<rightharpoonup> hval)" where
  "hgetall env db k =
     (case hgetall_fault env of Some e \<Rightarrow> Inl e | None \<Rightarrow> Inr (db_hgetall db k))"

definition hset :: "faults \<Rightarrow> redis_db \<Rightarrow> string \<Rightarrow> hval \<Rightarrow> hval \<Rightarrow> exn + redis_db" where
  "hset env db k tokens_v last_refill_v =
     (case hset_fault env of
        Some e \<Rightarrow> Inl e
      | None \<Rightarrow> Inr (db_hset db k tokens_v last_refill_v))"

definition expire :: "faults \<Rightarrow> redis_db \<Rightarrow> string \<Rightarrow> int \<Rightarrow> exn + redis_db" where
  "expire env db k seconds =
     (case expire_fault env of Some e \<Rightarrow> Inl e | None \<Rightarrow> Inr (db_expire db k seconds))"

subsection \<open>RateLimiter.check_rate_limit\<close>

text \<open>
  The object of lines 84-94: \<^verbatim>\<open>self.redis\<close> is None until \<^verbatim>\<open>connect()\<close> has set it.
\<close>

datatype redis_client = Client

record RateLimiter =
  redis_url :: string
  fail_open :: bool
  redis :: "redis_client option"

text \<open>The dict a check returns (lines 179-185).\<close>

record decision =
  allowed :: bool
  limit :: int
  remaining :: int
  reset :: int
  retry_after :: int

text \<open>
  Lines 146-160: the tokens left after this request has taken one, from the dict that
  HGETALL returned. A dict that is empty or has no \<^verbatim>\<open>tokens\<close> key is a new bucket.
  Otherwise both fields are parsed (ValueError, or KeyError for a missing
  \<^verbatim>\<open>last_refill\<close>) and the refill rate is the true division of the two ints
  (ZeroDivisionError), rounded once. \<^verbatim>\<open>min(max_requests, x)\<close> is the float \<open>x\<close> when
  \<open>x < max_requests\<close> and the int \<open>max_requests\<close> otherwise; taking one off the float
  rounds, taking one off the int is exact.
\<close>

definition bucket_tokens :: "(string \<rightharpoonup> hval) \<Rightarrow> int \<Rightarrow> int \<Rightarrow> real \<Rightarrow> exn + real" where
  "bucket_tokens bucket max_requests window_seconds now =
     (if bucket = Map.empty then Inr (real_of_int max_requests - 1)
      else case bucket ''tokens'' of
        None \<Rightarrow> Inr (real_of_int max_requests - 1)
      | Some tv \<Rightarrow>
          (case py_float tv of
             Inl e \<Rightarrow> Inl e
           | Inr tokens \<Rightarrow>
               (case bucket ''last_refill'' of
                  None \<Rightarrow> Inl KeyError
                | Some lv \<Rightarrow>
                    (case py_float lv of
                       Inl e \<Rightarrow> Inl e
                     | Inr last_refill \<Rightarrow>
                         if window_seconds = 0 then Inl ZeroDivisionError
                         else
                           let elapsed = fl (now - last_refill);
                               refill_rate =
                                 fl (real_of_int max_requests / real_of_int window_seconds);
                               refilled = fl (tokens + fl (elapsed * refill_rate))
                           in if refilled < real_of_int max_requests
                              then Inr (fl (refilled - 1))
                              else Inr (real_of_int max_requests - 1)))))"

text \<open>
  Lines 174-185: the response values. In \<^verbatim>\<open>now + window_seconds\<close> the int is
  converted to a float and the sum is rounded.
\<close>

definition response :: "bool \<Rightarrow> real \<Rightarrow> int \<Rightarrow> int \<Rightarrow> real \<Rightarrow> decision" where
  "response is_allowed tokens max_requests window_seconds now =
     \<lparr>allowed = is_allowed,
      limit = max_requests,
      remaining = max 0 (py_int tokens),
      reset = py_int (fl (now + fl (real_of_int window_seconds))),
      retry_after = (if \<not> is_allowed then window_seconds else 0)\<rparr>"

text \<open>Lines 190-208: what the handler of \<^verbatim>\<open>RedisConnectionError\<close> returns.\<close>

definition fallback :: "RateLimiter \<Rightarrow> int \<Rightarrow> int \<Rightarrow> real \<Rightarrow> decision" where
  "fallback self max_requests window_seconds now =
     (if fail_open self then
        \<lparr>allowed = True, limit = max_requests, remaining = max_requests,
         reset = py_int (fl (now + fl (real_of_int window_seconds))), retry_after = 0\<rparr>
      else
        \<lparr>allowed = False, limit = max_requests, remaining = 0,
         reset = py_int (fl (now + fl (real_of_int window_seconds))), retry_after = window_seconds\<rparr>)"

text \<open>
  Lines 143-185, the body of the \<^verbatim>\<open>try\<close>: the first exception ends it, with the
  store as the calls before it left it.
\<close>

definition try_body ::
  "RateLimiter \<Rightarrow> faults \<Rightarrow> string \<Rightarrow> int \<Rightarrow> int \<Rightarrow> real \<Rightarrow> redis_db
     \<Rightarrow> (exn + decision) \<times> redis_db" where
  "try_body self env key max_requests window_seconds now db =
     (case redis self of
        None \<Rightarrow> (Inl AttributeError, db)
      | Some client \<Rightarrow>
          (case hgetall env db (''rate_limit:'' @ key) of
             Inl e \<Rightarrow> (Inl e, db)
           | Inr bucket \<Rightarrow>
               (case bucket_tokens bucket max_requests window_seconds now of
                  Inl e \<Rightarrow> (Inl e, db)
                | Inr tokens \<Rightarrow>
                    if tokens \<ge> 0 then
                      (case hset env db (''rate_limit:'' @ key) (py_str tokens) (py_str now) of
                         Inl e \<Rightarrow> (Inl e, db)
                       | Inr db1 \<Rightarrow>
                           (case expire env db1 (''rate_limit:'' @ key) (window_seconds * 2) of
                              Inl e \<Rightarrow> (Inl e, db1)
                            | Inr db2 \<Rightarrow>
                                (Inr (response True tokens max_requests window_seconds now), db2)))
                    else (Inr (response False tokens max_requests window_seconds now), db))))"

text \<open>
  Lines 117-208: the \<^verbatim>\<open>try\<close> with its one handler. Every other exception leaves
  the function.
\<close>

definition check_rate_limit ::
  "RateLimiter \<Rightarrow> faults \<Rightarrow> string \<Rightarrow> int \<Rightarrow> int \<Rightarrow> real \<Rightarrow> redis_db
     \<Rightarrow> (exn + decision) \<times> redis_db" where
  "check_rate_limit self env key max_requests window_seconds now db =
     (case try_body self env key max_requests window_seconds now db of
        (Inl e, db') \<Rightarrow>
          if e = RedisConnectionError
          then (Inr (fallback self max_requests window_seconds now), db')
          else (Inl e, db')
      | (Inr d, db') \<Rightarrow> (Inr d, db'))"

text \<open>
  Sequential calls on one key, every call at the same clock reading: the results in
  order and the store after the last call.
\<close>

fun check_many ::
  "nat \<Rightarrow> RateLimiter \<Rightarrow> faults \<Rightarrow> string \<Rightarrow> int \<Rightarrow> int \<Rightarrow> real \<Rightarrow> redis_db
     \<Rightarrow> (exn + decision) list \<times> redis_db" where
  "check_many 0 self env key max_requests window_seconds now db = ([], db)"
| "check_many (Suc n) self env key max_requests window_seconds now db =
     (case check_rate_limit self env key max_requests window_seconds now db of
        (r, db') \<Rightarrow>
          (case check_many n self env key max_requests window_seconds now db' of
             (rs, db'') \<Rightarrow> (r # rs, db'')))"

subsection \<open>Concurrent checks\<close>

text \<open>
  A coroutine running \<^verbatim>\<open>check_rate_limit\<close> can be suspended at each of its three
  \<^verbatim>\<open>await\<close>s (lines 144, 167 and 172), and other coroutines run meanwhile. A task
  is the coroutine between two awaits: before HGETALL, holding the tokens it computed
  and about to send HSET, about to send EXPIRE, or finished with its result. One step
  runs a task up to its next await.
\<close>

datatype task =
    Begin
  | Computed real
  | Written real
  | Finished "exn + decision"

definition handler :: "RateLimiter \<Rightarrow> int \<Rightarrow> int \<Rightarrow> real \<Rightarrow> exn \<Rightarrow> exn + decision" where
  "handler self max_requests window_seconds now e =
     (if e = RedisConnectionError then Inr (fallback self max_requests window_seconds now)
      else Inl e)"

fun step ::
  "RateLimiter \<Rightarrow> faults \<Rightarrow> string \<Rightarrow> int \<Rightarrow> int \<Rightarrow> real \<Rightarrow> task \<Rightarrow> redis_db
     \<Rightarrow> task \<times> redis_db" where
  "step self env key max_requests window_seconds now Begin db =
     (case redis self of
        None \<Rightarrow> (Finished (handler self max_requests window_seconds now AttributeError), db)
      | Some client \<Rightarrow>
          (case hgetall env db (''rate_limit:'' @ key) of
             Inl e \<Rightarrow> (Finished (handler self max_requests window_seconds now e), db)
           | Inr bucket \<Rightarrow>
               (case bucket_tokens bucket max_requests window_seconds now of
                  Inl e \<Rightarrow> (Finished (handler self max_requests window_seconds now e), db)
                | Inr tokens \<Rightarrow>
                    if tokens \<ge> 0 then (Computed tokens, db)
                    else (Finished (Inr (response False tokens max_requests window_seconds now)),
                          db))))"
| "step self env key max_requests window_seconds now (Computed tokens) db =
     (case hset env db (''rate_limit:'' @ key) (py_str tokens) (py_str now) of
        Inl e \<Rightarrow> (Finished (handler self max_requests window_seconds now e), db)
      | Inr db1 \<Rightarrow> (Written tokens, db1))"
| "step self env key max_requests window_seconds now (Written tokens) db =
     (case expire env db (''rate_limit:'' @ key) (window_seconds * 2) of
        Inl e \<Rightarrow> (Finished (handler self max_requests window_seconds now e), db)
      | Inr db2 \<Rightarrow>
          (Finished (Inr (response True tokens max_requests window_seconds now)), db2))"
| "step self env key max_requests window_seconds now (Finished r) db = (Finished r, db)"

text \<open>
  A schedule names, step by step, the task that runs next. All tasks are calls with the
  same arguments, started at the same clock reading.
\<close>

fun run ::
  "RateLimiter \<Rightarrow> faults \<Rightarrow> string \<Rightarrow> int \<Rightarrow> int \<Rightarrow> real \<Rightarrow> nat list
     \<Rightarrow> task list \<times> redis_db \<Rightarrow> task list \<times> redis_db" where
  "run self env key max_requests window_seconds now [] c = c"
| "run self env key max_requests window_seconds now (i # sched) (ts, db) =
     (if i < length ts then
        (case step self env key max_requests window_seconds now (ts ! i) db of
           (t', db') \<Rightarrow>
             run self env key max_requests window_seconds now sched (ts[i := t'], db'))
      else run self env key max_requests window_seconds now sched (ts, db))"

fun task_allowed :: "task \<Rightarrow> bool" where
  "task_allowed (Finished (Inr d)) = allowed d"
| "task_allowed t = False"

subsection \<open>RateLimiter.get_client_ip and RateLimiter.get_rate_limit_key\<close>

text \<open>
  What the two functions read of a request: the \<^verbatim>\<open>X-Forwarded-For\<close> header if
  present, the host of \<^verbatim>\<open>request.client\<close> (which is None when the server knows no
  peer) and \<^verbatim>\<open>request.url.path\<close>.
\<close>

record Request =
  x_forwarded_for :: "string option"
  client_host :: "string option"
  path :: string

text \<open>
  \<^verbatim>\<open>str.strip()\<close> removes leading and trailing whitespace; the whitespace
  characters below code point 256 are 9-13, 28-32, 133 and 160.
\<close>

definition is_space :: "char \<Rightarrow> bool" where
  "is_space c =
     (let n = of_char c :: nat
      in (9 \<le> n \<and> n \<le> 13) \<or> (28 \<le> n \<and> n \<le> 32) \<or> n = 133 \<or> n = 160)"

definition strip :: "string \<Rightarrow> string" where
  "strip s = rev (dropWhile is_space (rev (dropWhile is_space s)))"

text \<open>\<^verbatim>\<open>s.split(',')[0]\<close>: the characters before the first comma.\<close>

definition split_comma_first :: "string \<Rightarrow> string" where
  "split_comma_first s = takeWhile (\<lambda>c. c \<noteq> CHR '','') s"

definition get_client_ip :: "Request \<Rightarrow> exn + string" where
  "get_client_ip request =
     (case x_forwarded_for request of
        Some forwarded_for \<Rightarrow>
          if forwarded_for \<noteq> [] then Inr (strip (split_comma_first forwarded_for))
          else (case client_host request of None \<Rightarrow> Inl AttributeError | Some h \<Rightarrow> Inr h)
      | None \<Rightarrow> (case client_host request of None \<Rightarrow> Inl AttributeError | Some h \<Rightarrow> Inr h))"

text \<open>
  Lines 227-262. The strategy is the string the caller passed; \<^verbatim>\<open>not user_id\<close> holds
  for None and for the empty string.
\<close>

definition get_rate_limit_key :: "Request \<Rightarrow> string \<Rightarrow> string option \<Rightarrow> exn + string" where
  "get_rate_limit_key request strategy user_id =
     (if strategy = ''ip'' then
        (case get_client_ip request of
           Inl e \<Rightarrow> Inl e
         | Inr ip \<Rightarrow> Inr (''ip:'' @ ip @ '':'' @ path request))
      else if strategy = ''user'' then
        (case user_id of
           None \<Rightarrow> Inl ValueError
         | Some u \<Rightarrow> if u = [] then Inl ValueError
                     else Inr (''user:'' @ u @ '':'' @ path request))
      else if strategy = ''combined'' then
        (case get_client_ip request of
           Inl e \<Rightarrow> Inl e
         | Inr ip \<Rightarrow>
             (case user_id of
                None \<Rightarrow> Inr (''ip:'' @ ip @ '':'' @ path request)
              | Some u \<Rightarrow> if u = [] then Inr (''ip:'' @ ip @ '':'' @ path request)
                          else Inr (''combined:'' @ u @ '':'' @ ip @ '':'' @ path request)))
      else Inl ValueError)"

section \<open>Properties\<close>

subsection \<open>Auxiliary facts\<close>

text \<open>Rounding: it is monotone, it leaves doubles alone, and small integers are doubles.\<close>

lemma rne_of_int [simp]: "rne (of_int n) = n"
  by (simp add: rne_def)

lemma rne_bounds: "\<lfloor>y\<rfloor> \<le> rne y" "rne y \<le> \<lfloor>y\<rfloor> + 1"
  by (auto simp: rne_def Let_def)

lemma rne_mono: "y \<le> z \<Longrightarrow> rne y \<le> rne z"
proof -
  assume yz: "y \<le> z"
  then have fl: "\<lfloor>y\<rfloor> \<le> \<lfloor>z\<rfloor>" by (rule floor_mono)
  show ?thesis
  proof (cases "\<lfloor>y\<rfloor> = \<lfloor>z\<rfloor>")
    case True
    with yz show ?thesis by (auto simp: rne_def Let_def)
  next
    case False
    with fl have "\<lfloor>y\<rfloor> + 1 \<le> \<lfloor>z\<rfloor>" by simp
    with rne_bounds(2)[of y] rne_bounds(1)[of z] show ?thesis by linarith
  qed
qed

lemma rne_ge_int: "of_int n \<le> y \<Longrightarrow> n \<le> rne y"
  using rne_mono[of "of_int n" y] by simp

lemma rne_le_int: "y \<le> of_int n \<Longrightarrow> rne y \<le> n"
  using rne_mono[of y "of_int n"] by simp

lemma p2_pos [simp]: "0 < (2::real) powi k"
  by (simp add: power_int_def)

lemma p2_add: "(2::real) powi (a + b) = 2 powi a * 2 powi b"
  by (simp add: power_int_add)

lemma p2_mono: "a \<le> b \<Longrightarrow> (2::real) powi a \<le> 2 powi b"
  by (rule power_int_increasing) simp_all

lemma p2_powr: "(2::real) powi k = 2 powr real_of_int k"
  by (simp add: powr_real_of_int')

lemma floor_log2_iff:
  assumes "0 < x"
  shows "\<lfloor>log 2 x\<rfloor> = k \<longleftrightarrow> 2 powi k \<le> x \<and> x < 2 powi (k + 1)"
  using floor_log_eq_powr_iff[of x 2 k] assms by (simp add: p2_powr add.commute)

lemma expo_ge [simp]: "- 1022 \<le> expo x"
  by (simp add: expo_def)

lemma expo_unique:
  assumes "2 powi e \<le> \<bar>x\<bar>" "\<bar>x\<bar> < 2 powi (e + 1)" "- 1022 \<le> e"
  shows "expo x = e"
proof -
  from assms(1) have "0 < \<bar>x\<bar>" using p2_pos[of e] by linarith
  with assms(1,2) have "\<lfloor>log 2 \<bar>x\<bar>\<rfloor> = e" by (simp add: floor_log2_iff)
  with assms(3) show ?thesis by (simp add: expo_def)
qed

lemma expo_normal:
  assumes "2 powi (- 1022) \<le> \<bar>x\<bar>"
  shows "2 powi (expo x) \<le> \<bar>x\<bar>" "\<bar>x\<bar> < 2 powi (expo x + 1)"
proof -
  from assms have pos: "0 < \<bar>x\<bar>" using p2_pos[of "- 1022"] by linarith
  define k where "k = \<lfloor>log 2 \<bar>x\<bar>\<rfloor>"
  from pos have k: "2 powi k \<le> \<bar>x\<bar>" "\<bar>x\<bar> < 2 powi (k + 1)"
    using floor_log2_iff[of "\<bar>x\<bar>" k] by (simp_all add: k_def)
  have "- 1022 \<le> k"
  proof (rule ccontr)
    assume "\<not> - 1022 \<le> k"
    then have "k + 1 \<le> - 1022" by simp
    then have "(2::real) powi (k + 1) \<le> 2 powi (- 1022)" by (rule p2_mono)
    with k(2) assms show False by linarith
  qed
  then have "expo x = k" by (simp add: expo_def k_def)
  with k show "2 powi (expo x) \<le> \<bar>x\<bar>" "\<bar>x\<bar> < 2 powi (expo x + 1)" by simp_all
qed

lemma expo_subnormal:
  assumes "\<bar>x\<bar> < 2 powi (- 1022)" "x \<noteq> 0"
  shows "expo x = - 1022"
proof -
  from assms(2) have pos: "0 < \<bar>x\<bar>" by simp
  define k where "k = \<lfloor>log 2 \<bar>x\<bar>\<rfloor>"
  from pos have k: "2 powi k \<le> \<bar>x\<bar>"
    using floor_log2_iff[of "\<bar>x\<bar>" k] by (simp_all add: k_def)
  have "k < - 1022"
  proof (rule ccontr)
    assume "\<not> k < - 1022"
    then have "(2::real) powi (- 1022) \<le> 2 powi k" by (intro p2_mono) simp
    with k assms show False by linarith
  qed
  then show ?thesis by (simp add: expo_def k_def)
qed

lemma expo_minus [simp]: "expo (- x) = expo x"
  by (simp add: expo_def)

lemma fl_0 [simp]: "fl 0 = 0"
  by (simp add: fl_def)

lemma fl_minus: "fl (- x) = - fl x"
  by (simp add: fl_def sgn_minus)

lemma fl_pos_eq:
  "0 < x \<Longrightarrow> fl x = of_int (rne (x / 2 powi (expo x - 52))) * 2 powi (expo x - 52)"
  by (simp add: fl_def)

lemma fl_nonneg: "0 \<le> x \<Longrightarrow> 0 \<le> fl x"
proof (cases "x = 0")
  case False
  assume "0 \<le> x"
  with False have pos: "0 < x" by simp
  have "0 \<le> x / 2 powi (expo x - 52)" using pos by simp
  then have "0 \<le> rne (x / 2 powi (expo x - 52))"
    using rne_ge_int[of 0] by simp
  then show ?thesis using pos by (simp add: fl_pos_eq)
qed simp

text \<open>A positive number in the binade of exponent \<open>e\<close> is rounded within that binade.\<close>

lemma fl_binade:
  assumes lo: "2 powi e \<le> x" and hi: "x < 2 powi (e + 1)" and e: "- 1022 \<le> e"
  shows "2 powi e \<le> fl x" "fl x \<le> 2 powi (e + 1)"
proof -
  from lo have pos: "0 < x" using p2_pos[of e] by linarith
  have ex: "expo x = e" using expo_unique[of e x] lo hi e pos by simp
  let ?q = "(2::real) powi (e - 52)"
  have q: "0 < ?q" by simp
  have e1: "(2::real) powi e = 2 ^ 52 * ?q"
    using p2_add[of 52 "e - 52"] by simp
  have e2: "(2::real) powi (e + 1) = 2 ^ 53 * ?q"
    using p2_add[of 53 "e - 52"] by (simp add: add.commute)
  from lo e1 q have "of_int (2 ^ 52) \<le> x / ?q" by (simp add: pos_le_divide_eq)
  then have a: "2 ^ 52 \<le> rne (x / ?q)" by (rule rne_ge_int)
  from hi e2 q have "x / ?q \<le> of_int (2 ^ 53)" by (simp add: pos_divide_le_eq)
  then have b: "rne (x / ?q) \<le> 2 ^ 53" by (rule rne_le_int)
  have f: "fl x = of_int (rne (x / ?q)) * ?q" using pos ex by (simp add: fl_pos_eq)
  from a have "(2::real) ^ 52 \<le> of_int (rne (x / ?q))"
    by (metis of_int_le_iff of_int_numeral of_int_power)
  then show "2 powi e \<le> fl x" unfolding f e1 using q by (simp add: mult_right_mono)
  from b have "of_int (rne (x / ?q)) \<le> (2::real) ^ 53"
    by (metis of_int_le_iff of_int_numeral of_int_power)
  then show "fl x \<le> 2 powi (e + 1)" unfolding f e2 using q by (simp add: mult_right_mono)
qed

lemma fl_subnormal_le:
  assumes pos: "0 < x" and hi: "x < 2 powi (- 1022)"
  shows "fl x \<le> 2 powi (- 1022)"
proof -
  have ex: "expo x = - 1022" using expo_subnormal[of x] pos hi by simp
  let ?q = "(2::real) powi (- 1074)"
  have q: "0 < ?q" by simp
  have e1: "(2::real) powi (- 1022) = 2 ^ 52 * ?q"
    using p2_add[of 52 "- 1074"] by simp
  from hi e1 q have "x / ?q \<le> of_int (2 ^ 52)" by (simp add: pos_divide_le_eq)
  then have b: "rne (x / ?q) \<le> 2 ^ 52" by (rule rne_le_int)
  have f: "fl x = of_int (rne (x / ?q)) * ?q" using pos ex by (simp add: fl_pos_eq)
  from b have "of_int (rne (x / ?q)) \<le> (2::real) ^ 52"
    by (metis of_int_le_iff of_int_numeral of_int_power)
  then show ?thesis unfolding f e1 using q by (simp add: mult_right_mono)
qed

lemma fl_mono_pos:
  assumes pos: "0 < x" and xy: "x \<le> y"
  shows "fl x \<le> fl y"
proof -
  from pos xy have ypos: "0 < y" by simp
  show ?thesis
  proof (cases "expo x = expo y")
    case True
    let ?q = "(2::real) powi (expo y - 52)"
    have "x / ?q \<le> y / ?q" using xy by (simp add: divide_right_mono)
    then have "rne (x / ?q) \<le> rne (y / ?q)" by (rule rne_mono)
    then have "of_int (rne (x / ?q)) * ?q \<le> of_int (rne (y / ?q)) * ?q"
      by (simp add: mult_right_mono)
    then show ?thesis using pos ypos True by (simp add: fl_pos_eq)
  next
    case False
    show ?thesis
    proof (cases "x < 2 powi (- 1022)")
      case sub: True
      then have ex: "expo x = - 1022" using expo_subnormal[of x] pos by simp
      have ynorm: "2 powi (- 1022) \<le> \<bar>y\<bar>"
      proof (rule ccontr)
        assume "\<not> 2 powi (- 1022) \<le> \<bar>y\<bar>"
        then have "expo y = - 1022" using expo_subnormal[of y] ypos by simp
        with ex False show False by simp
      qed
      have "fl x \<le> 2 powi (- 1022)" using fl_subnormal_le[OF pos sub] .
      also have "\<dots> \<le> 2 powi (expo y)" by (rule p2_mono) simp
      also have "\<dots> \<le> fl y"
        using fl_binade(1)[of "expo y" y] expo_normal[OF ynorm] ypos by simp
      finally show ?thesis .
    next
      case norm: False
      then have xn: "2 powi (- 1022) \<le> \<bar>x\<bar>" using pos by simp
      then have yn: "2 powi (- 1022) \<le> \<bar>y\<bar>" using xy pos by simp
      from expo_normal[OF xn] pos have x1: "2 powi (expo x) \<le> x" "x < 2 powi (expo x + 1)"
        by simp_all
      from expo_normal[OF yn] ypos have y1: "2 powi (expo y) \<le> y" "y < 2 powi (expo y + 1)"
        by simp_all
      have "expo x \<le> expo y"
      proof (rule ccontr)
        assume "\<not> expo x \<le> expo y"
        then have "expo y + 1 \<le> expo x" by simp
        then have "(2::real) powi (expo y + 1) \<le> 2 powi (expo x)" by (rule p2_mono)
        with x1 y1 xy show False by linarith
      qed
      with False have "expo x + 1 \<le> expo y" by simp
      then have le: "(2::real) powi (expo x + 1) \<le> 2 powi (expo y)" by (rule p2_mono)
      have "fl x \<le> 2 powi (expo x + 1)" using fl_binade(2)[OF x1] by simp
      also note le
      also have "2 powi (expo y) \<le> fl y" using fl_binade(1)[OF y1] by simp
      finally show ?thesis .
    qed
  qed
qed

lemma fl_mono: "x \<le> y \<Longrightarrow> fl x \<le> fl y"
proof -
  assume xy: "x \<le> y"
  consider "0 < x" | "x \<le> 0" "0 \<le> y" | "y < 0" by linarith
  then show ?thesis
  proof cases
    case 1
    then show ?thesis using xy by (rule fl_mono_pos)
  next
    case 2
    have "fl x \<le> 0" using fl_nonneg[of "- x"] 2(1) by (simp add: fl_minus)
    also have "0 \<le> fl y" using 2(2) by (rule fl_nonneg)
    finally show ?thesis .
  next
    case 3
    then have "0 < - y" "- y \<le> - x" using xy by simp_all
    then have "fl (- y) \<le> fl (- x)" by (rule fl_mono_pos)
    then show ?thesis by (simp add: fl_minus)
  qed
qed

lemma fl_nonpos: "x \<le> 0 \<Longrightarrow> fl x \<le> 0"
  using fl_mono[of x 0] by simp

lemma abs_less_next_binade:
  assumes "x \<noteq> 0"
  shows "\<bar>x\<bar> < 2 powi (expo x + 1)"
proof (cases "2 powi (- 1022) \<le> \<bar>x\<bar>")
  case True
  then show ?thesis by (rule expo_normal(2))
next
  case False
  then have "expo x = - 1022" using expo_subnormal[of x] assms by simp
  moreover have "(2::real) powi (- 1022) \<le> 2 powi (- 1021)" by (rule p2_mono) simp
  ultimately show ?thesis using False by simp
qed

lemma p2_times_int:
  assumes "0 \<le> j"
  shows "of_int n * (2::real) powi j = of_int (n * 2 ^ nat j)"
  using assms by (simp add: power_int_def)

text \<open>A number with at most 53 significant bits and an exponent in range is a double.\<close>

lemma fl_dyadic:
  assumes n0: "0 < n" and n53: "n < 2 ^ 53" and k: "- 1074 \<le> k"
  shows "fl (of_int n * 2 powi k) = of_int n * 2 powi k"
proof -
  define x where "x = of_int n * (2::real) powi k"
  define e where "e = expo x"
  have pos: "0 < x" using n0 by (simp add: x_def)
  have ek: "e - 52 \<le> k"
  proof (cases "2 powi (- 1022) \<le> \<bar>x\<bar>")
    case True
    from expo_normal(1)[OF True] pos have lo: "2 powi e \<le> x" by (simp add: e_def)
    from n53 have "real_of_int n < 2 ^ 53"
      by (metis of_int_less_iff of_int_numeral of_int_power)
    then have "x < 2 ^ 53 * 2 powi k" by (simp add: x_def mult_strict_right_mono)
    also have "\<dots> = 2 powi (53 + k)" using p2_add[of 53 k] by simp
    finally have "(2::real) powi e < 2 powi (53 + k)" using lo by linarith
    then have "e < 53 + k"
      by (metis linorder_not_le p2_mono)
    then show ?thesis by simp
  next
    case False
    then have "\<bar>x\<bar> < 2 powi (- 1022)" by (simp only: not_le)
    moreover from pos have "x \<noteq> 0" by (rule less_imp_neq[symmetric])
    ultimately have "e = - 1022" unfolding e_def by (rule expo_subnormal)
    with k show ?thesis by simp
  qed
  define j where "j = k - (e - 52)"
  have j0: "0 \<le> j" using ek by (simp add: j_def)
  have kk: "k = j + (e - 52)" by (simp add: j_def)
  have split: "(2::real) powi k = 2 powi j * 2 powi (e - 52)"
    using p2_add[of j "e - 52"] kk by simp
  have "x / 2 powi (e - 52) = of_int n * 2 powi j"
    unfolding x_def split by simp
  also have "\<dots> = of_int (n * 2 ^ nat j)" using j0 by (rule p2_times_int)
  finally have q: "x / 2 powi (e - 52) = of_int (n * 2 ^ nat j)" .
  have "fl x = of_int (rne (x / 2 powi (e - 52))) * 2 powi (e - 52)"
    unfolding e_def using pos by (rule fl_pos_eq)
  also have "\<dots> = of_int (n * 2 ^ nat j) * 2 powi (e - 52)"
    by (simp only: q rne_of_int)
  also have "\<dots> = (of_int n * 2 powi j) * 2 powi (e - 52)"
    by (simp only: p2_times_int[OF j0, of n])
  also have "\<dots> = x" unfolding x_def split by simp
  finally show ?thesis unfolding x_def .
qed

lemma fl_idem_pos:
  assumes pos: "0 < x"
  shows "fl (fl x) = fl x"
proof -
  let ?e = "expo x"
  let ?q = "(2::real) powi (?e - 52)"
  let ?N = "rne (x / ?q)"
  have f: "fl x = of_int ?N * ?q" using pos by (rule fl_pos_eq)
  have "0 \<le> x / ?q" using pos by simp
  then have N0: "0 \<le> ?N" using rne_ge_int[of 0] by simp
  have e2: "(2::real) powi (?e + 1) = 2 ^ 53 * ?q"
    using p2_add[of 53 "?e - 52"] by (simp add: add.commute)
  from abs_less_next_binade[of x] pos have "x < 2 ^ 53 * ?q" using e2 by simp
  then have "x / ?q \<le> of_int (2 ^ 53)" by (simp add: pos_divide_le_eq)
  then have N53: "?N \<le> 2 ^ 53" by (rule rne_le_int)
  have k: "- 1074 \<le> ?e - 52" using expo_ge[of x] by linarith
  consider "?N = 0" | "0 < ?N" "?N < 2 ^ 53" | "?N = 2 ^ 53" using N0 N53 by linarith
  then show ?thesis
  proof cases
    case 1
    then show ?thesis by (simp add: f)
  next
    case 2
    then show ?thesis unfolding f using k by (rule fl_dyadic)
  next
    case 3
    have "of_int ?N * ?q = of_int (2 ^ 52) * 2 powi (?e - 52 + 1)"
      using 3 p2_add[of "?e - 52" 1] by simp
    moreover have "fl (of_int (2 ^ 52) * 2 powi (?e - 52 + 1)) = of_int (2 ^ 52) * 2 powi (?e - 52 + 1)"
      by (rule fl_dyadic) (use k in simp_all)
    ultimately show ?thesis unfolding f by simp
  qed
qed

lemma fl_idem [simp]: "fl (fl x) = fl x"
proof -
  consider "0 < x" | "x = 0" | "x < 0" by linarith
  then show ?thesis
  proof cases
    case 1
    then show ?thesis by (rule fl_idem_pos)
  next
    case 2
    then show ?thesis by simp
  next
    case 3
    then have "fl (fl (- x)) = fl (- x)" by (intro fl_idem_pos) simp
    then show ?thesis by (simp add: fl_minus)
  qed
qed

lemma fl_of_int:
  assumes "\<bar>n\<bar> \<le> 2 ^ 53"
  shows "fl (of_int n) = of_int n"
proof -
  have pos: "fl (of_int m) = of_int m" if "0 < m" "m \<le> 2 ^ 53" for m :: int
  proof (cases "m = 2 ^ 53")
    case True
    have "fl (of_int (2 ^ 52) * 2 powi 1) = of_int (2 ^ 52) * 2 powi 1"
      by (rule fl_dyadic) simp_all
    with True show ?thesis by simp
  next
    case False
    with that have "m < 2 ^ 53" by simp
    with that(1) have "fl (of_int m * 2 powi 0) = of_int m * 2 powi 0"
      by (intro fl_dyadic) simp_all
    then show ?thesis by simp
  qed
  consider "0 < n" | "n = 0" | "n < 0" by linarith
  then show ?thesis
  proof cases
    case 1
    with assms show ?thesis by (intro pos) simp_all
  next
    case 2
    then show ?thesis by simp
  next
    case 3
    with assms have "fl (of_int (- n)) = of_int (- n)" by (intro pos) simp_all
    then show ?thesis by (simp add: fl_minus)
  qed
qed

lemma fl_numeral [simp]:
  "numeral k \<le> (9007199254740992::int) \<Longrightarrow> fl (numeral k) = numeral k"
  using fl_of_int[of "numeral k"] by simp

lemma fl_neg_numeral [simp]:
  "numeral k \<le> (9007199254740992::int) \<Longrightarrow> fl (- numeral k) = - numeral k"
  using fl_of_int[of "- numeral k"] by simp

lemma fl_1 [simp]: "fl 1 = 1"
  using fl_of_int[of 1] by simp

lemma fl_neg_1 [simp]: "fl (- 1) = - 1"
  using fl_of_int[of "- 1"] by simp

text \<open>Evaluating \<open>fl\<close> at a positive number whose binade is known.\<close>

lemma fl_eval:
  assumes "2 powi e \<le> x" "x < 2 powi (e + 1)" "- 1022 \<le> e"
  shows "fl x = of_int (rne (x / 2 powi (e - 52))) * 2 powi (e - 52)"
proof -
  from assms(1) have pos: "0 < x" using p2_pos[of e] by linarith
  have "expo x = e" using expo_unique[of e x] assms pos by simp
  with pos show ?thesis by (simp add: fl_pos_eq)
qed

lemmas check_defs = check_rate_limit_def try_body_def hgetall_def hset_def expire_def
  db_hgetall_def db_hset_def db_expire_def bucket_tokens_def response_def fallback_def
  py_str_def py_int_def no_faults_def

lemma fl_pred_le: "fl (fl x - 1) \<le> fl x"
  using fl_mono[of "fl x - 1" "fl x"] by simp

text \<open>The tokens left after the request has taken one are below the capacity.\<close>

lemma bucket_tokens_less:
  assumes "bucket_tokens b m w now = Inr t"
  shows "t < real_of_int m"
proof -
  have "fl (fl x - 1) < real_of_int m" if "fl x < real_of_int m" for x
    using fl_pred_le[of x] that by linarith
  with assms show ?thesis
    by (auto simp: bucket_tokens_def Let_def split: if_splits option.splits sum.splits)
qed

text \<open>
  The store after the body of the \<^verbatim>\<open>try\<close>: untouched, or written by HSET with
  non-negative tokens and then either left so because EXPIRE raised, or given its time
  to live.
\<close>

lemma try_body_store:
  assumes "try_body self env key m w now db = (r, db')"
  shows "db' = db
       \<or> (\<exists>t. bucket_tokens (db_hgetall db (''rate_limit:'' @ key)) m w now = Inr t \<and> 0 \<le> t
              \<and> hset_fault env = None
              \<and> ((\<exists>e. expire_fault env = Some e \<and> r = Inl e
                       \<and> db' = db_hset db (''rate_limit:'' @ key) (py_str t) (py_str now))
                 \<or> (expire_fault env = None \<and> r = Inr (response True t m w now)
                       \<and> db' = db_expire (db_hset db (''rate_limit:'' @ key) (py_str t) (py_str now))
                                  (''rate_limit:'' @ key) (w * 2))))"
  using assms
  by (auto simp: try_body_def hgetall_def hset_def expire_def
           split: option.splits sum.splits if_splits)

lemma check_store_eq_try_body:
  "snd (check_rate_limit self env key m w now db) = snd (try_body self env key m w now db)"
  by (auto simp: check_rate_limit_def split: prod.splits sum.splits)

lemma db_hset_key:
  "\<exists>e. db_hset db k (py_str t) lv k = Some e \<and> hfields e ''tokens'' = Some (Num t)"
  by (auto simp: db_hset_def py_str_def split: option.splits)

lemma bucket_tokens_existing:
  assumes tok: "bucket ''tokens'' = Some (Num tokens)"
    and lr: "bucket ''last_refill'' = Some (Num last_refill)"
    and w: "window_seconds \<noteq> 0"
  shows "bucket_tokens bucket max_requests window_seconds now =
           (let refilled =
                  fl (tokens + fl (fl (now - last_refill)
                                    * fl (real_of_int max_requests / real_of_int window_seconds)))
            in if refilled < real_of_int max_requests then Inr (fl (refilled - 1))
               else Inr (real_of_int max_requests - 1))"
proof -
  from tok have "bucket \<noteq> Map.empty" by auto
  with tok lr w show ?thesis by (simp add: bucket_tokens_def Let_def)
qed

lemma check_no_faults_result:
  assumes conn: "redis self = Some c"
    and bt: "bucket_tokens (db_hgetall db (''rate_limit:'' @ key)) m w now = Inr v"
  shows "check_rate_limit self no_faults key m w now db =
           (if 0 \<le> v
            then (Inr (response True v m w now),
                  db_expire (db_hset db (''rate_limit:'' @ key) (py_str v) (py_str now))
                    (''rate_limit:'' @ key) (w * 2))
            else (Inr (response False v m w now), db))"
  using conn bt
  by (simp add: check_rate_limit_def try_body_def hgetall_def hset_def expire_def no_faults_def)

lemma bucket_tokens_absent:
  "db k = None \<Longrightarrow> bucket_tokens (db_hgetall db k) m w now = Inr (real_of_int m - 1)"
  by (simp add: db_hgetall_def bucket_tokens_def)


lemma py_float_exn: "py_float v = Inl e \<Longrightarrow> e = ValueError"
  by (cases v) auto

lemma bucket_tokens_exn:
  "bucket_tokens b m w now = Inl e \<Longrightarrow> e = ValueError \<or> e = KeyError \<or> e = ZeroDivisionError"
  by (auto simp: bucket_tokens_def Let_def dest: py_float_exn
           split: if_splits option.splits sum.splits)

lemma check_allowed_no_faults:
  assumes chk: "check_rate_limit self no_faults key m w now db = (Inr d, db')"
    and alw: "allowed d"
  shows "\<exists>v. 0 \<le> v \<and> d = response True v m w now
           \<and> db' = db_expire (db_hset db (''rate_limit:'' @ key) (py_str v) (py_str now))
                     (''rate_limit:'' @ key) (w * 2)"
  using chk alw
  by (auto simp: check_rate_limit_def try_body_def hgetall_def hset_def expire_def no_faults_def
        response_def dest: bucket_tokens_exn split: option.splits sum.splits if_splits)

lemma db_hset_expire_ttl:
  "0 < s \<Longrightarrow> \<exists>e. db_expire (db_hset db k tv lv) k s k = Some e \<and> ttl e = Some (real_of_int s)"
  by (auto simp: db_hset_def db_expire_def split: option.splits)

lemma advance_ttl_bound:
  assumes "db k = Some e" and "ttl e = Some T" and "0 \<le> dt"
  shows "case advance dt db k of
           None \<Rightarrow> True
         | Some e' \<Rightarrow> \<exists>t. ttl e' = Some t \<and> 0 \<le> t \<and> t \<le> T"
  using assms by (simp add: advance_def)

lemma bucket_fields_overwrite:
  "[''tokens'' \<mapsto> a, ''last_refill'' \<mapsto> b](''tokens'' \<mapsto> a', ''last_refill'' \<mapsto> b')
     = [''tokens'' \<mapsto> a', ''last_refill'' \<mapsto> b']"
  by (rule ext) simp

lemma check_first_call:
  assumes conn: "redis self = Some c"
    and absent: "db (''rate_limit:'' @ key) = None"
    and w: "0 < w"
    and m: "0 < m"
  shows "check_rate_limit self no_faults key m w now db =
           (Inr (response True (real_of_int m - 1) m w now),
            db(''rate_limit:'' @ key \<mapsto>
                 \<lparr>hfields = [''tokens'' \<mapsto> Num (real_of_int m - 1), ''last_refill'' \<mapsto> Num now],
                  ttl = Some (real_of_int (w * 2))\<rparr>))"
proof -
  have bt: "bucket_tokens (db_hgetall db (''rate_limit:'' @ key)) m w now = Inr (real_of_int m - 1)"
    using absent by (rule bucket_tokens_absent)
  from m have pos: "0 \<le> real_of_int m - 1" by simp
  have res: "check_rate_limit self no_faults key m w now db =
           (if 0 \<le> real_of_int m - 1
            then (Inr (response True (real_of_int m - 1) m w now),
                  db_expire (db_hset db (''rate_limit:'' @ key) (py_str (real_of_int m - 1))
                     (py_str now)) (''rate_limit:'' @ key) (w * 2))
            else (Inr (response False (real_of_int m - 1) m w now), db))"
    by (rule check_no_faults_result[OF conn bt])
  show ?thesis
    unfolding res using pos absent w
    by (simp add: db_hset_def db_expire_def py_str_def)
qed

lemma check_same_instant:
  assumes conn: "redis self = Some c"
    and w: "0 < w"
    and tm: "t \<le> real_of_int m"
    and dt: "fl t = t"
    and dt1: "fl (t - 1) = t - 1"
  shows "check_rate_limit self no_faults key m w now
           (db(''rate_limit:'' @ key \<mapsto>
                 \<lparr>hfields = [''tokens'' \<mapsto> Num t, ''last_refill'' \<mapsto> Num now],
                  ttl = Some (real_of_int (w * 2))\<rparr>)) =
           (if 1 \<le> t then
              (Inr (response True (t - 1) m w now),
               db(''rate_limit:'' @ key \<mapsto>
                 \<lparr>hfields = [''tokens'' \<mapsto> Num (t - 1), ''last_refill'' \<mapsto> Num now],
                  ttl = Some (real_of_int (w * 2))\<rparr>))
            else
              (Inr (response False (t - 1) m w now),
               db(''rate_limit:'' @ key \<mapsto>
                 \<lparr>hfields = [''tokens'' \<mapsto> Num t, ''last_refill'' \<mapsto> Num now],
                  ttl = Some (real_of_int (w * 2))\<rparr>)))"
proof -
  let ?k = "''rate_limit:'' @ key"
  let ?e = "\<lparr>hfields = [''tokens'' \<mapsto> Num t, ''last_refill'' \<mapsto> Num now],
             ttl = Some (real_of_int (w * 2))\<rparr>"
  let ?db = "db(?k \<mapsto> ?e)"
  from w have w0: "w \<noteq> 0" by simp
  have "bucket_tokens (hfields ?e) m w now
          = (let refilled = fl (t + fl (fl (now - now) * fl (real_of_int m / real_of_int w)))
             in if refilled < real_of_int m then Inr (fl (refilled - 1))
                else Inr (real_of_int m - 1))"
    by (rule bucket_tokens_existing[OF _ _ w0]) simp_all
  with tm dt dt1 have bt0: "bucket_tokens (hfields ?e) m w now = Inr (t - 1)"
    by (auto simp: Let_def)
  have hg: "db_hgetall ?db ?k = hfields ?e" by (simp add: db_hgetall_def)
  have bt: "bucket_tokens (db_hgetall ?db ?k) m w now = Inr (t - 1)"
    using bt0 hg by (simp only:)
  have res: "check_rate_limit self no_faults key m w now ?db =
           (if 0 \<le> t - 1
            then (Inr (response True (t - 1) m w now),
                  db_expire (db_hset ?db ?k (py_str (t - 1)) (py_str now)) ?k (w * 2))
            else (Inr (response False (t - 1) m w now), ?db))"
    by (rule check_no_faults_result[OF conn bt])
  show ?thesis
    unfolding res using w
    by (simp add: db_hset_def db_expire_def py_str_def bucket_fields_overwrite)
qed

lemma run_append:
  "run self env key m w now (s1 @ s2) c = run self env key m w now s2 (run self env key m w now s1 c)"
  by (induction s1 arbitrary: c) (auto split: prod.splits)

text \<open>One pass over the tasks \<open>ys\<close>, each stepped once in order, when a step maps a
  task \<open>t\<close> to \<open>g t\<close> and the store, be it \<open>db\<close> or \<open>D\<close>, to \<open>D\<close>.\<close>

lemma run_pass:
  assumes "\<And>t d. t \<in> set ys \<Longrightarrow> d = db \<or> d = D
             \<Longrightarrow> step self env key m w now t d = (g t, D)"
  shows "run self env key m w now [length xs..<length xs + length ys] (xs @ ys, db)
           = (xs @ map g ys, if ys = [] then db else D)"
  using assms
proof (induction ys arbitrary: xs db)
  case Nil
  then show ?case by simp
next
  case (Cons y ys)
  have st: "step self env key m w now y db = (g y, D)"
    by (rule Cons.prems) simp_all
  have ih: "run self env key m w now [length (xs @ [g y])..<length (xs @ [g y]) + length ys]
              ((xs @ [g y]) @ ys, D)
            = ((xs @ [g y]) @ map g ys, if ys = [] then D else D)"
    by (rule Cons.IH) (simp add: Cons.prems)
  have up: "[length xs..<length xs + length (y # ys)]
              = length xs # [length (xs @ [g y])..<length (xs @ [g y]) + length ys]"
  proof -
    have "length xs < length xs + length (y # ys)" by simp
    from upt_conv_Cons[OF this] show ?thesis by simp
  qed
  show ?case
    unfolding up using st ih by simp
qed

lemma run_pass_replicate:
  assumes "\<And>d. d = db \<or> d = D \<Longrightarrow> step self env key m w now t d = (t', D)"
    and "0 < n"
  shows "run self env key m w now [0..<n] (replicate n t, db) = (replicate n t', D)"
proof -
  have "run self env key m w now [length ([]::task list)..<length ([]::task list) + length (replicate n t)]
          ([] @ replicate n t, db)
        = ([] @ map (\<lambda>_. t') (replicate n t), if replicate n t = [] then db else D)"
    by (rule run_pass) (simp add: assms(1))
  with assms(2) show ?thesis by simp
qed

lemma db_hset_idem: "db_hset (db_hset db k a b) k a b = db_hset db k a b"
  by (auto simp: db_hset_def bucket_fields_overwrite split: option.splits)

lemma db_expire_idem: "db_expire (db_expire db k s) k s = db_expire db k s"
  by (auto simp: db_expire_def split: option.splits)

lemma all_concurrent_checks_allowed:
  assumes conn: "redis self = Some c"
    and absent: "db (''rate_limit:'' @ key) = None"
    and m: "0 < m" and n: "0 < n"
  shows "run self no_faults key m w now ([0..<n] @ [0..<n] @ [0..<n]) (replicate n Begin, db)
           = (replicate n (Finished (Inr (response True (real_of_int m - 1) m w now))),
              db_expire (db_hset db (''rate_limit:'' @ key) (py_str (real_of_int m - 1)) (py_str now))
                (''rate_limit:'' @ key) (w * 2))"
proof -
  let ?k = "''rate_limit:'' @ key"
  let ?v = "real_of_int m - 1"
  let ?db1 = "db_hset db ?k (py_str ?v) (py_str now)"
  let ?db2 = "db_expire ?db1 ?k (w * 2)"
  let ?run = "run self no_faults key m w now"
  from m have pos: "0 \<le> ?v" by simp
  have bt: "bucket_tokens (db_hgetall db ?k) m w now = Inr ?v"
    using absent by (rule bucket_tokens_absent)
  have s1: "step self no_faults key m w now Begin d = (Computed ?v, db)" if "d = db \<or> d = db" for d
    using that conn bt pos by (simp add: hgetall_def no_faults_def)
  have s2: "step self no_faults key m w now (Computed ?v) d = (Written ?v, ?db1)"
    if "d = db \<or> d = ?db1" for d
    using that by (auto simp: hset_def no_faults_def db_hset_idem)
  have s3: "step self no_faults key m w now (Written ?v) d
              = (Finished (Inr (response True ?v m w now)), ?db2)"
    if "d = ?db1 \<or> d = ?db2" for d
    using that by (auto simp: expire_def no_faults_def db_expire_idem)
  have p1: "?run [0..<n] (replicate n Begin, db) = (replicate n (Computed ?v), db)"
    using s1 n by (rule run_pass_replicate)
  have p2: "?run [0..<n] (replicate n (Computed ?v), db) = (replicate n (Written ?v), ?db1)"
    using s2 n by (rule run_pass_replicate)
  have p3: "?run [0..<n] (replicate n (Written ?v), ?db1)
              = (replicate n (Finished (Inr (response True ?v m w now))), ?db2)"
    using s3 n by (rule run_pass_replicate)
  show ?thesis
    by (simp only: run_append p1 p2 p3)
qed

subsection \<open>C1: concurrent checks on one key\<close>

text \<open>
  The three steps of one task, run back to back, are \<open>check_rate_limit\<close>.
\<close>

theorem steps_are_check:
  "(case step self env key m w now Begin db of (t1, db1) \<Rightarrow>
      case step self env key m w now t1 db1 of (t2, db2) \<Rightarrow>
        step self env key m w now t2 db2)
   = (case check_rate_limit self env key m w now db of (r, db') \<Rightarrow> (Finished r, db'))"
  by (auto simp: check_rate_limit_def try_body_def handler_def
        split: option.splits sum.splits prod.splits if_splits)

text \<open>
  C1, evaluated on the code. Twenty concurrent calls of \<open>check_rate_limit\<close> on an
  absent key with capacity 10, scheduled so that every task is served its HGETALL before
  any task sends its HSET: each task reads the empty bucket, takes the first of 10
  tokens and writes 9, so all twenty finish with \<^verbatim>\<open>allowed = True\<close>. HGETALL, HSET
  and EXPIRE are three separate calls; the check is not one atomic operation on the
  store.
\<close>

theorem concurrent_checks_exceed_capacity:
  "run \<lparr>redis_url = ''redis://h'', fail_open = True, redis = Some Client\<rparr>
       no_faults ''k'' 10 60 1000
       ([0..<20] @ [0..<20] @ [0..<20])
       (replicate 20 Begin, Map.empty)
   = (replicate 20
        (Finished (Inr \<lparr>allowed = True, limit = 10, remaining = 9, reset = 1060,
                        retry_after = 0\<rparr>)),
      [''rate_limit:k'' \<mapsto>
         \<lparr>hfields = [''tokens'' \<mapsto> Num 9, ''last_refill'' \<mapsto> Num 1000], ttl = Some 120\<rparr>])
   \<and> length (filter task_allowed
        (fst (run \<lparr>redis_url = ''redis://h'', fail_open = True, redis = Some Client\<rparr>
                no_faults ''k'' 10 60 1000
                ([0..<20] @ [0..<20] @ [0..<20])
                (replicate 20 Begin, Map.empty)))) = 20"
proof -
  let ?self = "\<lparr>redis_url = ''redis://h'', fail_open = True, redis = Some Client\<rparr>"
  have r: "run ?self no_faults ''k'' 10 60 1000 ([0..<20] @ [0..<20] @ [0..<20])
             (replicate 20 Begin, Map.empty)
           = (replicate 20 (Finished (Inr (response True (real_of_int 10 - 1) 10 60 1000))),
              db_expire (db_hset Map.empty (''rate_limit:'' @ ''k'') (py_str (real_of_int 10 - 1))
                 (py_str 1000)) (''rate_limit:'' @ ''k'') (60 * 2))"
    by (rule all_concurrent_checks_allowed[where c = Client]) simp_all
  show ?thesis
    unfolding r
    by (simp add: response_def py_int_def db_hset_def db_expire_def py_str_def)
qed

subsection \<open>C2: a denied check and the store\<close>

text \<open>
  C2, as amended. A call of \<open>check_rate_limit\<close> that returns \<^verbatim>\<open>allowed = False\<close>
  leaves the whole store exactly as it was (the entry of the key with its fields and
  its time to live included), provided the EXPIRE call of that check does not raise a
  connection error. This covers the denial computed from the bucket and the fail-closed
  decision after a failed HGETALL or HSET.
\<close>

theorem denied_check_writes_nothing:
  assumes chk: "check_rate_limit self env key max_requests window_seconds now db = (Inr d, db')"
    and den: "\<not> allowed d"
    and exp: "expire_fault env \<noteq> Some RedisConnectionError"
  shows "db' = db"
proof -
  obtain r0 db0 where tb: "try_body self env key max_requests window_seconds now db = (r0, db0)"
    by (cases "try_body self env key max_requests window_seconds now db")
  from chk tb have db0: "db0 = db'"
    by (auto simp: check_rate_limit_def split: sum.splits if_splits)
  from try_body_store[OF tb] show ?thesis
  proof (elim disjE exE conjE)
    assume "db0 = db"
    with db0 show ?thesis by simp
  next
    fix t e
    assume "expire_fault env = Some e" and "r0 = Inl e"
    with chk tb den exp show ?thesis
      by (auto simp: check_rate_limit_def split: if_splits)
  next
    fix t
    assume "r0 = Inr (response True t max_requests window_seconds now)"
    with chk tb den show ?thesis
      by (auto simp: check_rate_limit_def response_def)
  qed
qed

text \<open>
  The theorem at a bucket with no tokens left: the check is denied and the entry is the
  one that was there.
\<close>

theorem denied_check_writes_nothing_witness:
  "check_rate_limit \<lparr>redis_url = ''redis://h'', fail_open = True, redis = Some Client\<rparr>
     no_faults ''k'' 5 60 1000
     [''rate_limit:k'' \<mapsto>
        \<lparr>hfields = [''tokens'' \<mapsto> Num 0, ''last_refill'' \<mapsto> Num 1000], ttl = Some 120\<rparr>]
   = (Inr \<lparr>allowed = False, limit = 5, remaining = 0, reset = 1060, retry_after = 60\<rparr>,
      [''rate_limit:k'' \<mapsto>
        \<lparr>hfields = [''tokens'' \<mapsto> Num 0, ''last_refill'' \<mapsto> Num 1000], ttl = Some 120\<rparr>])
   \<and> \<not> allowed \<lparr>allowed = False, limit = 5, remaining = 0, reset = 1060, retry_after = 60\<rparr>
   \<and> expire_fault no_faults \<noteq> Some RedisConnectionError"
proof -
  let ?db = "[''rate_limit:k'' \<mapsto>
        \<lparr>hfields = [''tokens'' \<mapsto> Num 0, ''last_refill'' \<mapsto> Num 1000], ttl = Some 120\<rparr>]"
  let ?d = "\<lparr>allowed = False, limit = 5, remaining = 0, reset = 1060, retry_after = 60\<rparr>"
  let ?self = "\<lparr>redis_url = ''redis://h'', fail_open = True, redis = Some Client\<rparr>"
  obtain db' where h: "check_rate_limit ?self no_faults ''k'' 5 60 1000 ?db = (Inr ?d, db')"
    by (simp add: check_defs)
  have a: "\<not> allowed ?d" by simp
  have f: "expire_fault no_faults \<noteq> Some RedisConnectionError" by (simp add: no_faults_def)
  from denied_check_writes_nothing[OF h a f] h a f show ?thesis by simp
qed

text \<open>
  C2 as stated fails. With \<^verbatim>\<open>fail_open = False\<close>, a bucket holding 3 tokens and an
  EXPIRE that raises a connection error after HSET went through, the call returns
  \<^verbatim>\<open>allowed = False\<close> and the stored tokens have gone from 3 to 2.
\<close>

theorem denied_check_writes_nothing_counterexample:
  "check_rate_limit \<lparr>redis_url = ''redis://h'', fail_open = False, redis = Some Client\<rparr>
     \<lparr>hgetall_fault = None, hset_fault = None, expire_fault = Some RedisConnectionError\<rparr>
     ''k'' 5 60 1000
     [''rate_limit:k'' \<mapsto>
        \<lparr>hfields = [''tokens'' \<mapsto> Num 3, ''last_refill'' \<mapsto> Num 1000], ttl = Some 120\<rparr>]
   = (Inr \<lparr>allowed = False, limit = 5, remaining = 0, reset = 1060, retry_after = 60\<rparr>,
      [''rate_limit:k'' \<mapsto>
        \<lparr>hfields = [''tokens'' \<mapsto> Num 2, ''last_refill'' \<mapsto> Num 1000], ttl = Some 120\<rparr>])"
  by (simp add: check_defs)

subsection \<open>C3: the elapsed time of the refill\<close>

text \<open>
  C3, as amended. In a check on an existing bucket whose two fields parse to finite
  doubles (store reachable, \<open>window_seconds\<close> not 0, the clock a finite double and
  every float result of the check inside the range of the doubles), the elapsed time
  used for the refill is the float difference \<open>now - last_refill\<close> as it is, with no
  clamp: the tokens after the refill are
  \<open>tokens + elapsed * (max_requests / window_seconds)\<close> in float arithmetic, capped at
  \<open>max_requests\<close> by \<^verbatim>\<open>min\<close>, and the decision is \<^verbatim>\<open>allowed\<close> exactly when the
  tokens left after taking one are not negative. When \<open>last_refill\<close> is not later than
  \<open>now\<close>, this elapsed time is the clamped one, \<open>max 0 (now - last_refill)\<close>. When
  \<open>last_refill\<close> is later than \<open>now\<close> (positive capacity and window), the elapsed
  time is not positive and the tokens after the refill are at most the stored ones:
  nothing is refilled, and tokens can be taken off.
\<close>

theorem refill_elapsed_not_clamped:
  assumes conn: "redis self = Some c"
    and ent: "db (''rate_limit:'' @ key) = Some e"
    and tok: "hfields e ''tokens'' = Some (Num tokens)"
    and lr: "hfields e ''last_refill'' = Some (Num last_refill)"
    and w: "window_seconds \<noteq> 0"
    and dbl: "is_double tokens" "is_double last_refill" "is_double now"
    and fin: "let elapsed = fl (now - last_refill);
                  rate = fl (real_of_int max_requests / real_of_int window_seconds);
                  refill = fl (elapsed * rate)
              in finite_float elapsed \<and> finite_float rate \<and> finite_float refill
               \<and> finite_float (fl (tokens + refill))
               \<and> finite_float (fl (real_of_int window_seconds))
               \<and> finite_float (fl (now + fl (real_of_int window_seconds)))"
  shows "let elapsed = fl (now - last_refill);
             rate = fl (real_of_int max_requests / real_of_int window_seconds);
             refilled = fl (tokens + fl (elapsed * rate));
             left = (if refilled < real_of_int max_requests then fl (refilled - 1)
                     else real_of_int max_requests - 1)
         in bucket_tokens (hfields e) max_requests window_seconds now = Inr left
          \<and> fst (check_rate_limit self no_faults key max_requests window_seconds now db)
              = Inr (response (0 \<le> left) left max_requests window_seconds now)
          \<and> (last_refill \<le> now \<longrightarrow> elapsed = max 0 (fl (now - last_refill)))
          \<and> (now < last_refill \<and> 0 < max_requests \<and> 0 < window_seconds \<longrightarrow>
                elapsed \<le> 0 \<and> refilled \<le> tokens)"
proof -
  let ?el = "fl (now - last_refill)"
  let ?rate = "fl (real_of_int max_requests / real_of_int window_seconds)"
  let ?r = "fl (tokens + fl (?el * ?rate))"
  let ?left = "if ?r < real_of_int max_requests then fl (?r - 1) else real_of_int max_requests - 1"
  have bt: "bucket_tokens (hfields e) max_requests window_seconds now = Inr ?left"
    using bucket_tokens_existing[OF tok lr w, of max_requests now] by (simp add: Let_def)
  have hg: "db_hgetall db (''rate_limit:'' @ key) = hfields e"
    using ent by (simp add: db_hgetall_def)
  have chk: "fst (check_rate_limit self no_faults key max_requests window_seconds now db)
              = Inr (response (0 \<le> ?left) ?left max_requests window_seconds now)"
  proof -
    have bt': "bucket_tokens (db_hgetall db (''rate_limit:'' @ key)) max_requests window_seconds now
                 = Inr ?left"
      using bt hg by (simp only:)
    show ?thesis
      by (cases "0 \<le> ?left")
         (simp_all only: check_no_faults_result[OF conn bt'] fst_conv if_True if_False)
  qed
  have past: "last_refill \<le> now \<longrightarrow> ?el = max 0 (fl (now - last_refill))"
  proof
    assume "last_refill \<le> now"
    then have "0 \<le> fl (now - last_refill)" by (intro fl_nonneg) simp
    then show "?el = max 0 (fl (now - last_refill))" by (simp add: max_def)
  qed
  have future: "now < last_refill \<and> 0 < max_requests \<and> 0 < window_seconds \<longrightarrow>
                  ?el \<le> 0 \<and> ?r \<le> tokens"
  proof (intro impI, elim conjE)
    assume a: "now < last_refill" "0 < max_requests" "0 < window_seconds"
    from a(1) have el: "?el \<le> 0" by (intro fl_nonpos) simp
    from a(2,3) have "0 \<le> ?rate" by (intro fl_nonneg) simp
    with el have "?el * ?rate \<le> 0" by (rule mult_nonpos_nonneg)
    then have "fl (?el * ?rate) \<le> 0" by (rule fl_nonpos)
    then have "tokens + fl (?el * ?rate) \<le> tokens" by simp
    then have "?r \<le> fl tokens" by (rule fl_mono)
    with dbl(1) have "?r \<le> tokens" by (simp add: is_double_def)
    with el show "?el \<le> 0 \<and> ?r \<le> tokens" by simp
  qed
  from bt chk past future show ?thesis by (simp only: Let_def)
qed

text \<open>
  The double nearest to 1/12 and 60 times it; the double nearest to 1/49, 49 times it,
  and one less than that.
\<close>

lemma fl_twelfth: "fl (1 / 12) = 6004799503160661 / 2 ^ 56"
  using fl_eval[of "- 4" "1 / 12"] by (simp add: rne_def power_int_minus)

lemma fl_sixty_twelfths: "fl (60 * (6004799503160661 / 2 ^ 56)) = 5"
  using fl_eval[of 2 "60 * (6004799503160661 / 2 ^ 56)"] by (simp add: rne_def power_int_minus)

lemma fl_forty_ninth: "fl (1 / 49) = 5882252574524729 / 2 ^ 58"
  using fl_eval[of "- 6" "1 / 49"] by (simp add: rne_def power_int_minus)

lemma fl_forty_nine_forty_ninths:
  "fl (49 * (5882252574524729 / 2 ^ 58)) = 9007199254740991 / 2 ^ 53"
  using fl_eval[of "- 1" "49 * (5882252574524729 / 2 ^ 58)"]
  by (simp add: rne_def power_int_minus)

lemma fl_below_one: "fl (9007199254740991 / 2 ^ 53) = 9007199254740991 / 2 ^ 53"
  using fl_dyadic[of 9007199254740991 "- 53"] by (simp add: power_int_minus)

lemma fl_minus_ulp: "fl (9007199254740991 / 2 ^ 53 - 1) = - (1 / 2 ^ 53)"
proof -
  have "fl (- (1 / 2 ^ 53)) = - (1 / 2 ^ 53)"
    using fl_dyadic[of 1 "- 53"] by (simp add: fl_minus power_int_minus)
  moreover have "(9007199254740991::real) / 2 ^ 53 - 1 = - (1 / 2 ^ 53)" by simp
  ultimately show ?thesis by (simp only:)
qed

text \<open>
  The theorem at two buckets. With 3 stored tokens, capacity 5, a window of 60 seconds
  and \<open>last_refill\<close> 60 seconds ahead of the clock, the request is left with -3 tokens
  and is denied. With no stored tokens, capacity 1 and a window of 49 seconds, a check 49
  seconds after \<open>last_refill\<close> refills 49 times the double nearest to 1/49, which is the
  double just below 1: the request is left with \<open>- 1 / 2 ^ 53\<close> tokens and is denied.
\<close>

theorem refill_elapsed_not_clamped_witness:
  "bucket_tokens [''tokens'' \<mapsto> Num 3, ''last_refill'' \<mapsto> Num 1060] 5 60 1000 = Inr (- 3)
   \<and> fst (check_rate_limit \<lparr>redis_url = ''redis://h'', fail_open = True, redis = Some Client\<rparr>
        no_faults ''k'' 5 60 1000
        [''rate_limit:k'' \<mapsto>
           \<lparr>hfields = [''tokens'' \<mapsto> Num 3, ''last_refill'' \<mapsto> Num 1060], ttl = Some 120\<rparr>])
      = Inr \<lparr>allowed = False, limit = 5, remaining = 0, reset = 1060, retry_after = 60\<rparr>
   \<and> bucket_tokens [''tokens'' \<mapsto> Num 0, ''last_refill'' \<mapsto> Num 1000] 1 49 1049
      = Inr (- (1 / 2 ^ 53))
   \<and> fst (check_rate_limit \<lparr>redis_url = ''redis://h'', fail_open = True, redis = Some Client\<rparr>
        no_faults ''k'' 1 49 1049
        [''rate_limit:k'' \<mapsto>
           \<lparr>hfields = [''tokens'' \<mapsto> Num 0, ''last_refill'' \<mapsto> Num 1000], ttl = Some 98\<rparr>])
      = Inr \<lparr>allowed = False, limit = 1, remaining = 0, reset = 1098, retry_after = 49\<rparr>"
proof -
  let ?self = "\<lparr>redis_url = ''redis://h'', fail_open = True, redis = Some Client\<rparr>"
  let ?e1 = "\<lparr>hfields = [''tokens'' \<mapsto> Num 3, ''last_refill'' \<mapsto> Num 1060], ttl = Some 120\<rparr>"
  let ?e2 = "\<lparr>hfields = [''tokens'' \<mapsto> Num 0, ''last_refill'' \<mapsto> Num 1000], ttl = Some 98\<rparr>"
  have a1: "fl (1000 - 1060) = - 60" by simp
  have a2: "fl (real_of_int 5 / real_of_int 60) = 6004799503160661 / 2 ^ 56"
    using fl_twelfth by simp
  have a3: "fl (- 60 * (6004799503160661 / 2 ^ 56)) = - 5"
    using fl_sixty_twelfths fl_minus[of "60 * (6004799503160661 / 2 ^ 56)"] by simp
  have a4: "fl (3 + - 5) = - 2" by simp
  have a5: "fl (- 2 - 1) = - 3" by simp
  have b1: "fl (1049 - 1000) = 49" by simp
  have b2: "fl (real_of_int 1 / real_of_int 49) = 5882252574524729 / 2 ^ 58"
    using fl_forty_ninth by simp
  have b3: "fl (49 * (5882252574524729 / 2 ^ 58)) = 9007199254740991 / 2 ^ 53"
    by (rule fl_forty_nine_forty_ninths)
  have b4: "fl (0 + 9007199254740991 / 2 ^ 53) = 9007199254740991 / 2 ^ 53"
    using fl_below_one by simp
  have b5: "fl (9007199254740991 / 2 ^ 53 - 1) = - (1 / 2 ^ 53)"
    by (rule fl_minus_ulp)
  note t1 = refill_elapsed_not_clamped[where self = ?self and c = Client and key = "''k''"
         and db = "[''rate_limit:k'' \<mapsto> ?e1]" and e = ?e1 and tokens = 3
         and last_refill = 1060 and window_seconds = 60 and max_requests = 5 and now = 1000,
         unfolded Let_def a1 a2 a3 a4 a5]
  have i1: "bucket_tokens (hfields ?e1) 5 60 1000 = Inr (- 3)
          \<and> fst (check_rate_limit ?self no_faults ''k'' 5 60 1000 [''rate_limit:k'' \<mapsto> ?e1])
              = Inr (response (0 \<le> (- 3::real)) (- 3) 5 60 1000)"
    using t1 by (simp add: is_double_def finite_float_def)
  note t2 = refill_elapsed_not_clamped[where self = ?self and c = Client and key = "''k''"
         and db = "[''rate_limit:k'' \<mapsto> ?e2]" and e = ?e2 and tokens = 0
         and last_refill = 1000 and window_seconds = 49 and max_requests = 1 and now = 1049,
         unfolded Let_def b1 b2 b3 b4 b5]
  have lt: "(9007199254740991::real) / 2 ^ 53 < real_of_int 1" by simp
  have i2: "bucket_tokens (hfields ?e2) 1 49 1049 = Inr (- (1 / 2 ^ 53))
          \<and> fst (check_rate_limit ?self no_faults ''k'' 1 49 1049 [''rate_limit:k'' \<mapsto> ?e2])
              = Inr (response (0 \<le> (- (1 / 2 ^ 53)::real)) (- (1 / 2 ^ 53)) 1 49 1049)"
    using t2[unfolded lt[THEN eqTrueI] if_True b5] by (simp add: is_double_def finite_float_def)
  from i1 i2 show ?thesis
    by (simp add: response_def py_int_def)
qed

text \<open>
  C3 as stated fails. With 3 stored tokens and \<open>last_refill\<close> 60 seconds ahead of the
  clock, the code takes 5 tokens off before the request takes its one and the check is
  denied with nothing written; with the elapsed time clamped to zero the request would
  have been left with 2 tokens.
\<close>

theorem refill_elapsed_not_clamped_counterexample:
  "check_rate_limit \<lparr>redis_url = ''redis://h'', fail_open = True, redis = Some Client\<rparr>
     no_faults ''k'' 5 60 1000
     [''rate_limit:k'' \<mapsto>
        \<lparr>hfields = [''tokens'' \<mapsto> Num 3, ''last_refill'' \<mapsto> Num 1060], ttl = Some 120\<rparr>]
   = (Inr \<lparr>allowed = False, limit = 5, remaining = 0, reset = 1060, retry_after = 60\<rparr>,
      [''rate_limit:k'' \<mapsto>
        \<lparr>hfields = [''tokens'' \<mapsto> Num 3, ''last_refill'' \<mapsto> Num 1060], ttl = Some 120\<rparr>])
   \<and> bucket_tokens [''tokens'' \<mapsto> Num 3, ''last_refill'' \<mapsto> Num 1060] 5 60 1000 = Inr (- 3)
   \<and> min 5 (3 + max 0 (1000 - 1060) * (5 / 60)) - 1 = (2::real)"
proof -
  have bt: "bucket_tokens [''tokens'' \<mapsto> Num 3, ''last_refill'' \<mapsto> Num 1060] 5 60 1000
              = Inr (- 3)"
  proof -
    have a1: "fl (1000 - 1060) = - 60" by simp
    have a2: "fl (real_of_int 5 / real_of_int 60) = 6004799503160661 / 2 ^ 56"
      using fl_twelfth by simp
    have a3: "fl (- 60 * (6004799503160661 / 2 ^ 56)) = - 5"
      using fl_sixty_twelfths fl_minus[of "60 * (6004799503160661 / 2 ^ 56)"] by simp
    have a4: "fl (3 + - 5) = - 2" by simp
    have a5: "fl (- 2 - 1) = - 3" by simp
    note ex = bucket_tokens_existing[where bucket = "[''tokens'' \<mapsto> Num 3, ''last_refill'' \<mapsto> Num 1060]"
        and tokens = 3 and last_refill = 1060 and window_seconds = 60 and max_requests = 5
        and now = 1000, unfolded Let_def a1 a2 a3 a4 a5]
    from ex show ?thesis by simp
  qed
  have "check_rate_limit \<lparr>redis_url = ''redis://h'', fail_open = True, redis = Some Client\<rparr>
     no_faults ''k'' 5 60 1000
     [''rate_limit:k'' \<mapsto>
        \<lparr>hfields = [''tokens'' \<mapsto> Num 3, ''last_refill'' \<mapsto> Num 1060], ttl = Some 120\<rparr>]
   = (Inr (response False (- 3) 5 60 1000),
      [''rate_limit:k'' \<mapsto>
        \<lparr>hfields = [''tokens'' \<mapsto> Num 3, ''last_refill'' \<mapsto> Num 1060], ttl = Some 120\<rparr>])"
    using bt
    by (simp add: check_rate_limit_def try_body_def hgetall_def db_hgetall_def no_faults_def)
  with bt show ?thesis
    by (simp add: response_def py_int_def)
qed

subsection \<open>C4: persisted tokens stay within the capacity\<close>

text \<open>
  C4. Whatever the limiter, the environment, the arguments and the store: an entry of
  the store that a call of \<open>check_rate_limit\<close> has changed and left in place holds a
  \<^verbatim>\<open>tokens\<close> field that parses to a number between 0 and \<open>max_requests\<close>. The refill
  is capped by \<^verbatim>\<open>min\<close>, a new bucket starts at \<open>max_requests - 1\<close>, and HSET is sent
  only when the tokens left are not negative.
\<close>

theorem persisted_tokens_in_range:
  assumes chk: "check_rate_limit self env key max_requests window_seconds now db = (r, db')"
    and ent: "db' k = Some e"
    and chg: "db' k \<noteq> db k"
  shows "\<exists>t. hfields e ''tokens'' = Some (Num t) \<and> 0 \<le> t \<and> t \<le> real_of_int max_requests"
proof -
  let ?k = "''rate_limit:'' @ key"
  obtain r0 where tb: "try_body self env key max_requests window_seconds now db = (r0, db')"
    using chk check_store_eq_try_body[of self env key max_requests window_seconds now db]
    by (cases "try_body self env key max_requests window_seconds now db") simp
  from try_body_store[OF tb] chg
  obtain t where bt: "bucket_tokens (db_hgetall db ?k) max_requests window_seconds now = Inr t"
    and t0: "0 \<le> t"
    and db': "db' = db_hset db ?k (py_str t) (py_str now)
            \<or> db' = db_expire (db_hset db ?k (py_str t) (py_str now)) ?k (window_seconds * 2)"
    by auto
  have tm: "t \<le> real_of_int max_requests" using bucket_tokens_less[OF bt] by simp
  have kk: "k = ?k"
  proof (rule ccontr)
    assume ne: "k \<noteq> ?k"
    from db' have "db' k = db k"
      using ne by (auto simp: db_hset_def db_expire_def split: option.splits)
    with chg show False by simp
  qed
  obtain e1 where e1: "db_hset db ?k (py_str t) (py_str now) ?k = Some e1"
    and f1: "hfields e1 ''tokens'' = Some (Num t)"
    using db_hset_key by blast
  have "hfields e ''tokens'' = Some (Num t)"
    using db' ent e1 f1 kk by (auto simp: db_expire_def split: if_splits)
  with t0 tm show ?thesis by blast
qed

text \<open>
  The theorem at a record whose \<^verbatim>\<open>tokens\<close> were inflated to 999999 and whose
  \<^verbatim>\<open>last_refill\<close> was set to the epoch: the check writes 4 tokens for a capacity of 5.
\<close>

theorem persisted_tokens_in_range_witness:
  "check_rate_limit \<lparr>redis_url = ''redis://h'', fail_open = True, redis = Some Client\<rparr>
     no_faults ''k'' 5 60 1000
     [''rate_limit:k'' \<mapsto>
        \<lparr>hfields = [''tokens'' \<mapsto> Num 999999, ''last_refill'' \<mapsto> Num 0], ttl = None\<rparr>]
   = (Inr \<lparr>allowed = True, limit = 5, remaining = 4, reset = 1060, retry_after = 0\<rparr>,
      [''rate_limit:k'' \<mapsto>
         \<lparr>hfields = [''tokens'' \<mapsto> Num 4, ''last_refill'' \<mapsto> Num 1000], ttl = Some 120\<rparr>])
   \<and> (\<exists>t. hfields \<lparr>hfields = [''tokens'' \<mapsto> Num 4, ''last_refill'' \<mapsto> Num 1000],
                     ttl = Some 120\<rparr> ''tokens'' = Some (Num t)
          \<and> 0 \<le> t \<and> t \<le> real_of_int 5)"
proof -
  have h: "check_rate_limit \<lparr>redis_url = ''redis://h'', fail_open = True, redis = Some Client\<rparr>
     no_faults ''k'' 5 60 1000
     [''rate_limit:k'' \<mapsto>
        \<lparr>hfields = [''tokens'' \<mapsto> Num 999999, ''last_refill'' \<mapsto> Num 0], ttl = None\<rparr>]
   = (Inr \<lparr>allowed = True, limit = 5, remaining = 4, reset = 1060, retry_after = 0\<rparr>,
      [''rate_limit:k'' \<mapsto>
         \<lparr>hfields = [''tokens'' \<mapsto> Num 4, ''last_refill'' \<mapsto> Num 1000], ttl = Some 120\<rparr>])"
  proof -
    have "0 \<le> fl (1 / 12)" by (intro fl_nonneg) simp
    then have "0 \<le> fl (1000 * fl (1 / 12))" by (intro fl_nonneg) simp
    then have "fl 999999 \<le> fl (999999 + fl (1000 * fl (1 / 12)))" by (intro fl_mono) simp
    then have ge: "\<not> fl (999999 + fl (1000 * fl (1 / 12))) < 5" by simp
    show ?thesis
      using ge by (simp add: check_defs Let_def)
  qed
  show ?thesis
    using h persisted_tokens_in_range[OF h, of "''rate_limit:k''"
        "\<lparr>hfields = [''tokens'' \<mapsto> Num 4, ''last_refill'' \<mapsto> Num 1000], ttl = Some 120\<rparr>"]
    by simp
qed

subsection \<open>C5: the rate-limit key\<close>

text \<open>
  C5, evaluated on the code. \<open>get_rate_limit_key\<close> joins the client address and the
  path as they come: a forwarded address with a semicolon or a line feed keeps it, a
  forwarded address of 10000 characters gives a key of 10014 characters, and the
  \<^verbatim>\<open>user\<close> strategy with an empty user id raises ValueError.
\<close>

theorem rate_limit_key_not_sanitized:
  "get_rate_limit_key
     \<lparr>x_forwarded_for = Some ''1.1.1.1; FLUSHALL'', client_host = Some ''10.0.0.1'',
      path = ''/api/login''\<rparr> ''ip'' None
   = Inr ''ip:1.1.1.1; FLUSHALL:/api/login''
   \<and> CHR '';'' \<in> set ''ip:1.1.1.1; FLUSHALL:/api/login''
   \<and> get_rate_limit_key
     \<lparr>x_forwarded_for = Some (''1.1.1.1'' @ [CHR 0x0A] @ ''FLUSHDB''),
      client_host = Some ''10.0.0.1'', path = ''/api/login''\<rparr> ''ip'' None
   = Inr (''ip:1.1.1.1'' @ [CHR 0x0A] @ ''FLUSHDB:/api/login'')
   \<and> get_rate_limit_key
     \<lparr>x_forwarded_for = Some (replicate 10000 CHR ''x''), client_host = Some ''10.0.0.1'',
      path = ''/api/login''\<rparr> ''ip'' None
   = Inr (''ip:'' @ replicate 10000 CHR ''x'' @ '':/api/login'')
   \<and> length (''ip:'' @ replicate 10000 CHR ''x'' @ '':/api/login'') = 10014
   \<and> get_rate_limit_key
     \<lparr>x_forwarded_for = None, client_host = Some ''10.0.0.1'', path = ''/api/login''\<rparr>
     ''user'' (Some '''')
   = Inl ValueError"
  by (simp add: get_rate_limit_key_def get_client_ip_def strip_def split_comma_first_def
        is_space_def)

subsection \<open>C6: a store that cannot be reached\<close>

text \<open>
  C6, evaluated on the code. A limiter that was never connected (\<^verbatim>\<open>self.redis\<close> is
  None) raises AttributeError from \<open>check_rate_limit\<close> even with
  \<^verbatim>\<open>fail_open = True\<close>, and a timeout error of the client leaves the function as
  well: the handler catches \<open>RedisConnectionError\<close> only.
\<close>

theorem store_fault_escapes_check:
  "check_rate_limit \<lparr>redis_url = ''redis://invalid-host:6379'', fail_open = True, redis = None\<rparr>
     env ''test'' 5 60 now db
   = (Inl AttributeError, db)
   \<and> check_rate_limit
     \<lparr>redis_url = ''redis://invalid-host:6379'', fail_open = True, redis = Some Client\<rparr>
     \<lparr>hgetall_fault = Some RedisTimeoutError, hset_fault = None, expire_fault = None\<rparr>
     ''test'' 5 60 now db
   = (Inl RedisTimeoutError, db)"
  by (simp add: check_rate_limit_def try_body_def hgetall_def)

text \<open>
  What the handler does cover: when HGETALL raises a connection error on a connected
  limiter, the check returns the decision configured by \<^verbatim>\<open>fail_open\<close> and leaves the
  store alone.
\<close>

theorem connection_error_degrades:
  assumes "redis self = Some c" and "hgetall_fault env = Some RedisConnectionError"
  shows "check_rate_limit self env key m w now db =
           (Inr (if fail_open self
                 then \<lparr>allowed = True, limit = m, remaining = m,
                       reset = py_int (fl (now + fl (real_of_int w))), retry_after = 0\<rparr>
                 else \<lparr>allowed = False, limit = m, remaining = 0,
                       reset = py_int (fl (now + fl (real_of_int w))), retry_after = w\<rparr>), db)"
  using assms by (simp add: check_rate_limit_def try_body_def hgetall_def fallback_def)

theorem connection_error_degrades_witness:
  "check_rate_limit \<lparr>redis_url = ''redis://h'', fail_open = False, redis = Some Client\<rparr>
     \<lparr>hgetall_fault = Some RedisConnectionError, hset_fault = None, expire_fault = None\<rparr>
     ''test'' 5 60 1000 Map.empty
   = (Inr \<lparr>allowed = False, limit = 5, remaining = 0, reset = 1060, retry_after = 60\<rparr>,
      Map.empty)"
  using connection_error_degrades[where c = Client and key = "''test''" and m = 5 and w = 60
      and now = 1000 and db = Map.empty
      and self = "\<lparr>redis_url = ''redis://h'', fail_open = False, redis = Some Client\<rparr>"
      and env = "\<lparr>hgetall_fault = Some RedisConnectionError, hset_fault = None,
                  expire_fault = None\<rparr>"]
  by (simp add: py_int_def)

subsection \<open>C7: non-positive capacity and window\<close>




subsection \<open>C8: the time to live of a bucket\<close>

text \<open>
  C8, as amended. A check with a positive \<open>window_seconds\<close> in which none of the three
  store calls raises and which returns \<^verbatim>\<open>allowed = True\<close> leaves the entry of the
  key with a time to live of exactly \<open>2 * window_seconds\<close>; from then on, as long as
  the store is not written again, the entry is either gone or has a time to live
  between 0 and \<open>2 * window_seconds\<close>.
\<close>

theorem allowed_check_sets_ttl:
  assumes chk: "check_rate_limit self no_faults key max_requests window_seconds now db = (Inr d, db')"
    and alw: "allowed d"
    and w: "0 < window_seconds"
  shows "(\<exists>e. db' (''rate_limit:'' @ key) = Some e
             \<and> ttl e = Some (real_of_int (2 * window_seconds)))
       \<and> (\<forall>dt. 0 \<le> dt \<longrightarrow>
             (case advance dt db' (''rate_limit:'' @ key) of
                None \<Rightarrow> True
              | Some e' \<Rightarrow> \<exists>t. ttl e' = Some t \<and> 0 \<le> t
                                \<and> t \<le> real_of_int (2 * window_seconds)))"
proof -
  let ?k = "''rate_limit:'' @ key"
  from check_allowed_no_faults[OF chk alw]
  obtain v where db': "db' = db_expire (db_hset db ?k (py_str v) (py_str now)) ?k (window_seconds * 2)"
    by blast
  from w have "0 < window_seconds * 2" by simp
  from db_hset_expire_ttl[OF this, of db ?k "py_str v" "py_str now"] db'
  obtain e where e: "db' ?k = Some e" and t: "ttl e = Some (real_of_int (2 * window_seconds))"
    by (auto simp: mult.commute)
  have "case advance dt db' ?k of
           None \<Rightarrow> True
         | Some e' \<Rightarrow> \<exists>t. ttl e' = Some t \<and> 0 \<le> t \<and> t \<le> real_of_int (2 * window_seconds)"
    if "0 \<le> dt" for dt
    using e t that by (rule advance_ttl_bound)
  with e t show ?thesis by blast
qed

text \<open>
  The theorem at the first check of a key, capacity 5 and a window of 10 seconds: the
  entry gets 20 seconds to live, and 7 seconds later its time to live is within bounds.
\<close>

theorem allowed_check_sets_ttl_witness:
  "check_rate_limit \<lparr>redis_url = ''redis://h'', fail_open = True, redis = Some Client\<rparr>
     no_faults ''k'' 5 10 1000 Map.empty
   = (Inr \<lparr>allowed = True, limit = 5, remaining = 4, reset = 1010, retry_after = 0\<rparr>,
      [''rate_limit:k'' \<mapsto>
         \<lparr>hfields = [''tokens'' \<mapsto> Num 4, ''last_refill'' \<mapsto> Num 1000], ttl = Some 20\<rparr>])
   \<and> (\<exists>e. [''rate_limit:k'' \<mapsto>
         \<lparr>hfields = [''tokens'' \<mapsto> Num 4, ''last_refill'' \<mapsto> Num 1000], ttl = Some 20\<rparr>]
           ''rate_limit:k'' = Some e \<and> ttl e = Some 20)
   \<and> (\<exists>t. ttl (the (advance 7 [''rate_limit:k'' \<mapsto>
         \<lparr>hfields = [''tokens'' \<mapsto> Num 4, ''last_refill'' \<mapsto> Num 1000], ttl = Some 20\<rparr>]
           ''rate_limit:k'')) = Some t \<and> 0 \<le> t \<and> t \<le> 20)"
proof -
  let ?self = "\<lparr>redis_url = ''redis://h'', fail_open = True, redis = Some Client\<rparr>"
  let ?db' = "[''rate_limit:k'' \<mapsto>
         \<lparr>hfields = [''tokens'' \<mapsto> Num 4, ''last_refill'' \<mapsto> Num 1000], ttl = Some 20\<rparr>]"
  let ?d = "\<lparr>allowed = True, limit = 5, remaining = 4, reset = 1010, retry_after = 0\<rparr>"
  have h: "check_rate_limit ?self no_faults ''k'' 5 10 1000 Map.empty = (Inr ?d, ?db')"
    by (simp add: check_defs)
  have a: "allowed ?d" by simp
  have w: "(0::int) < 10" by simp
  have dt: "(0::real) \<le> 7" by simp
  note inst = allowed_check_sets_ttl[OF h a w]
  from inst have "\<exists>e. ?db' ''rate_limit:k'' = Some e \<and> ttl e = Some 20"
    by simp
  moreover from inst[THEN conjunct2, rule_format, OF dt]
  have "case advance 7 ?db' (''rate_limit:'' @ ''k'') of
                None \<Rightarrow> True
              | Some e' \<Rightarrow> \<exists>t. ttl e' = Some t \<and> 0 \<le> t \<and> t \<le> real_of_int (2 * 10)" .
  moreover have "advance 7 ?db' ''rate_limit:k'' \<noteq> None" by (simp add: advance_def)
  ultimately show ?thesis using h by (auto split: option.splits)
qed

text \<open>
  C8 as stated fails. When HSET goes through and EXPIRE raises a connection error, a
  limiter with \<^verbatim>\<open>fail_open = True\<close> returns \<^verbatim>\<open>allowed = True\<close> and the entry it
  has just created has no time to live: it is still there a million seconds later.
\<close>

theorem allowed_check_sets_ttl_counterexample:
  "check_rate_limit \<lparr>redis_url = ''redis://h'', fail_open = True, redis = Some Client\<rparr>
     \<lparr>hgetall_fault = None, hset_fault = None, expire_fault = Some RedisConnectionError\<rparr>
     ''k'' 5 10 1000 Map.empty
   = (Inr \<lparr>allowed = True, limit = 5, remaining = 5, reset = 1010, retry_after = 0\<rparr>,
      [''rate_limit:k'' \<mapsto>
         \<lparr>hfields = [''tokens'' \<mapsto> Num 4, ''last_refill'' \<mapsto> Num 1000], ttl = None\<rparr>])
   \<and> advance 1000000 [''rate_limit:k'' \<mapsto>
         \<lparr>hfields = [''tokens'' \<mapsto> Num 4, ''last_refill'' \<mapsto> Num 1000], ttl = None\<rparr>]
        ''rate_limit:k''
      = Some \<lparr>hfields = [''tokens'' \<mapsto> Num 4, ''last_refill'' \<mapsto> Num 1000], ttl = None\<rparr>"
  by (simp add: check_defs advance_def)

subsection \<open>C9: five checks pass and the sixth is denied\<close>

text \<open>
  C9. With a connected limiter, a store whose calls do not raise, capacity 5, any
  positive \<open>window_seconds\<close> and a key that is absent at the start: of six calls of
  \<open>check_rate_limit\<close> on that key, one after the other at the same clock reading, the
  first five return a decision with \<^verbatim>\<open>allowed = True\<close> and the sixth a decision with
  \<^verbatim>\<open>allowed = False\<close>.
\<close>

theorem five_allowed_sixth_denied:
  assumes conn: "redis self = Some c"
    and absent: "db (''rate_limit:'' @ key) = None"
    and w: "0 < window_seconds"
  shows "map (map_sum id allowed)
           (fst (check_many 6 self no_faults key 5 window_seconds now db))
         = [Inr True, Inr True, Inr True, Inr True, Inr True, Inr False]"
proof -
  have six: "(6::nat) = Suc (Suc (Suc (Suc (Suc (Suc 0)))))" by simp
  let ?k = "''rate_limit:'' @ key"
  let ?S = "\<lambda>t. db(?k \<mapsto> \<lparr>hfields = [''tokens'' \<mapsto> Num t, ''last_refill'' \<mapsto> Num now],
                            ttl = Some (real_of_int (window_seconds * 2))\<rparr>)"
  let ?chk = "check_rate_limit self no_faults key 5 window_seconds now"
  note later = check_same_instant[where m = 5, OF conn w]
  have c1: "?chk db = (Inr (response True 4 5 window_seconds now), ?S 4)"
    using check_first_call[where m = 5 and db = db and key = key and now = now, OF conn _ w] absent by simp
  have c2: "?chk (?S 4) = (Inr (response True 3 5 window_seconds now), ?S 3)"
    using later[where t = 4 and db = db and key = key and now = now] by simp
  have c3: "?chk (?S 3) = (Inr (response True 2 5 window_seconds now), ?S 2)"
    using later[where t = 3 and db = db and key = key and now = now] by simp
  have c4: "?chk (?S 2) = (Inr (response True 1 5 window_seconds now), ?S 1)"
    using later[where t = 2 and db = db and key = key and now = now] by simp
  have c5: "?chk (?S 1) = (Inr (response True 0 5 window_seconds now), ?S 0)"
    using later[where t = 1 and db = db and key = key and now = now] by simp
  have c6: "?chk (?S 0) = (Inr (response False (- 1) 5 window_seconds now), ?S 0)"
    using later[where t = 0 and db = db and key = key and now = now] by simp
  have "fst (check_many 6 self no_faults key 5 window_seconds now db) =
          [Inr (response True 4 5 window_seconds now), Inr (response True 3 5 window_seconds now),
           Inr (response True 2 5 window_seconds now), Inr (response True 1 5 window_seconds now),
           Inr (response True 0 5 window_seconds now),
           Inr (response False (- 1) 5 window_seconds now)]"
    unfolding six
    by (simp only: check_many.simps c1 c2 c3 c4 c5 c6 prod.case fst_conv)
  then show ?thesis by (simp add: response_def)
qed

text \<open>The theorem on an empty store with a window of 60 seconds.\<close>

theorem five_allowed_sixth_denied_witness:
  "map (map_sum id allowed)
     (fst (check_many 6 \<lparr>redis_url = ''redis://h'', fail_open = True, redis = Some Client\<rparr>
             no_faults ''boundary_test'' 5 60 1000 Map.empty))
   = [Inr True, Inr True, Inr True, Inr True, Inr True, Inr False]"
proof -
  let ?self = "\<lparr>redis_url = ''redis://h'', fail_open = True, redis = Some Client\<rparr>"
  have a: "redis ?self = Some Client" by simp
  have w: "(0::int) < 60" by simp
  from five_allowed_sixth_denied[where self = ?self and c = Client and db = Map.empty
         and key = "''boundary_test''" and window_seconds = 60 and now = 1000]
  show ?thesis by simp
qed

subsection \<open>C10: a bucket whose fields do not parse\<close>

text \<open>
  C10, as amended. When HGETALL returns a stored record that has a \<^verbatim>\<open>tokens\<close> field,
  and that field or \<^verbatim>\<open>last_refill\<close> does not parse as a number (or \<^verbatim>\<open>last_refill\<close>
  is missing), \<open>check_rate_limit\<close> raises an exception that its handler does not
  catch: ValueError for a field that does not parse, KeyError for a missing
  \<^verbatim>\<open>last_refill\<close>; nothing is written and no decision is returned. A stored record
  without a \<^verbatim>\<open>tokens\<close> field is not parsed: it counts as a new bucket with
  \<open>max_requests - 1\<close> tokens left.
\<close>

theorem unparseable_bucket_raises:
  assumes conn: "redis self = Some c"
    and hg: "hgetall_fault env = None"
    and ent: "db (''rate_limit:'' @ key) = Some e"
  shows "(hfields e ''tokens'' = Some tv
            \<and> \<not> (\<exists>t l. tv = Num t \<and> hfields e ''last_refill'' = Some (Num l)) \<longrightarrow>
          check_rate_limit self env key max_requests window_seconds now db =
            (Inl (case tv of
                    Garbled s \<Rightarrow> ValueError
                  | Num t \<Rightarrow> (case hfields e ''last_refill'' of
                                None \<Rightarrow> KeyError
                              | Some lv \<Rightarrow> ValueError)), db))
       \<and> (hfields e ''tokens'' = None \<longrightarrow>
          bucket_tokens (db_hgetall db (''rate_limit:'' @ key)) max_requests window_seconds now
            = Inr (real_of_int max_requests - 1))"
proof (intro conjI impI)
  assume a: "hfields e ''tokens'' = Some tv
            \<and> \<not> (\<exists>t l. tv = Num t \<and> hfields e ''last_refill'' = Some (Num l))"
  then have ne: "hfields e \<noteq> Map.empty" by auto
  let ?x = "case tv of
              Garbled s \<Rightarrow> ValueError
            | Num t \<Rightarrow> (case hfields e ''last_refill'' of
                          None \<Rightarrow> KeyError
                        | Some lv \<Rightarrow> ValueError)"
  have bt: "bucket_tokens (hfields e) max_requests window_seconds now = Inl ?x"
  proof (cases tv)
    case (Garbled s)
    with a ne show ?thesis by (simp add: bucket_tokens_def)
  next
    case (Num t)
    show ?thesis
    proof (cases "hfields e ''last_refill''")
      case None
      with a ne Num show ?thesis by (simp add: bucket_tokens_def)
    next
      case (Some lv)
      with a Num obtain s where "lv = Garbled s" by (cases lv) auto
      with a ne Num Some show ?thesis by (simp add: bucket_tokens_def)
    qed
  qed
  have nc: "?x \<noteq> RedisConnectionError"
    by (simp split: hval.splits option.splits)
  from conn hg ent bt nc
  show "check_rate_limit self env key max_requests window_seconds now db = (Inl ?x, db)"
    by (simp add: check_rate_limit_def try_body_def hgetall_def db_hgetall_def)
next
  assume "hfields e ''tokens'' = None"
  with ent show "bucket_tokens (db_hgetall db (''rate_limit:'' @ key)) max_requests window_seconds now
            = Inr (real_of_int max_requests - 1)"
    by (simp add: bucket_tokens_def db_hgetall_def)
qed

text \<open>
  The theorem at a record whose \<^verbatim>\<open>tokens\<close> field is text (ValueError) and at a record
  that has lost its \<^verbatim>\<open>last_refill\<close> field (KeyError).
\<close>

theorem unparseable_bucket_raises_witness:
  "check_rate_limit \<lparr>redis_url = ''redis://h'', fail_open = True, redis = Some Client\<rparr>
     no_faults ''k'' 5 60 1000
     [''rate_limit:k'' \<mapsto>
        \<lparr>hfields = [''tokens'' \<mapsto> Garbled ''many'', ''last_refill'' \<mapsto> Num 990],
         ttl = Some 120\<rparr>]
   = (Inl ValueError,
      [''rate_limit:k'' \<mapsto>
        \<lparr>hfields = [''tokens'' \<mapsto> Garbled ''many'', ''last_refill'' \<mapsto> Num 990],
         ttl = Some 120\<rparr>])
   \<and> check_rate_limit \<lparr>redis_url = ''redis://h'', fail_open = True, redis = Some Client\<rparr>
     no_faults ''k'' 5 60 1000
     [''rate_limit:k'' \<mapsto> \<lparr>hfields = [''tokens'' \<mapsto> Num 3], ttl = Some 120\<rparr>]
   = (Inl KeyError,
      [''rate_limit:k'' \<mapsto> \<lparr>hfields = [''tokens'' \<mapsto> Num 3], ttl = Some 120\<rparr>])"
proof -
  let ?self = "\<lparr>redis_url = ''redis://h'', fail_open = True, redis = Some Client\<rparr>"
  let ?e1 = "\<lparr>hfields = [''tokens'' \<mapsto> Garbled ''many'', ''last_refill'' \<mapsto> Num 990],
         ttl = Some 120\<rparr>"
  let ?e2 = "\<lparr>hfields = [''tokens'' \<mapsto> Num 3], ttl = Some (120::real)\<rparr>"
  from unparseable_bucket_raises[where self = ?self and c = Client and env = no_faults
         and key = "''k''" and db = "[''rate_limit:k'' \<mapsto> ?e1]" and e = ?e1
         and tv = "Garbled ''many''" and max_requests = 5 and window_seconds = 60 and now = 1000]
       unparseable_bucket_raises[where self = ?self and c = Client and env = no_faults
         and key = "''k''" and db = "[''rate_limit:k'' \<mapsto> ?e2]" and e = ?e2
         and tv = "Num 3" and max_requests = 5 and window_seconds = 60 and now = 1000]
  show ?thesis by (simp add: no_faults_def)
qed

text \<open>
  C10 as stated fails. A stored record that holds only a \<^verbatim>\<open>last_refill\<close> field, and
  that one not a number, raises nothing: the bucket is initialised anew, the request is
  allowed and the record is overwritten.
\<close>

theorem unparseable_bucket_raises_counterexample:
  "check_rate_limit \<lparr>redis_url = ''redis://h'', fail_open = True, redis = Some Client\<rparr>
     no_faults ''k'' 5 60 1000
     [''rate_limit:k'' \<mapsto> \<lparr>hfields = [''last_refill'' \<mapsto> Garbled ''soon''], ttl = None\<rparr>]
   = (Inr \<lparr>allowed = True, limit = 5, remaining = 4, reset = 1060, retry_after = 0\<rparr>,
      [''rate_limit:k'' \<mapsto>
         \<lparr>hfields = [''last_refill'' \<mapsto> Garbled ''soon'', ''tokens'' \<mapsto> Num 4,
                     ''last_refill'' \<mapsto> Num 1000],
          ttl = Some 120\<rparr>])"
  by (simp add: check_defs)

end
